theory Spec2Isabelle
  imports Complex_Main "HOL-Library.AList" "HOL-Library.Multiset"
begin

section \<open>Python values shared by both tools\<close>

text \<open>
  A Python \<open>dict\<close> (and \<open>collections.OrderedDict\<close>) is an association list in
  insertion order: \<open>d[k] = v\<close> is \<open>AList.update k v d\<close> (an existing key keeps its
  place, a new key goes to the end), \<open>d[k]\<close> is \<open>map_of d k\<close>, and a missing key is
  the error \<open>KeyError k\<close>.

  A float is \<open>pyfloat\<close>: not-a-number or a real. Rounding of float64 is not modelled;
  the counters and depth totals of dumpSTR are sums of whole numbers.
\<close>

datatype pyfloat = NaN | Flt real

datatype error =
    KeyError string
  | ValueError_negative_DP string int "string list"
  | ValueError_unexpected_dtype string
  | TypeError_depth
  | TypeError_list_indices

fun isnan :: "pyfloat \<Rightarrow> bool" where
  "isnan NaN = True"
| "isnan (Flt x) = False"

section \<open>siSTR: command dispatch\<close>

text \<open>
  \<open>class SISTRCommands(enum.Enum): index = "index"\<close>. Subscripting the enum class
  with a name, \<open>SISTRCommands[args.command]\<close>, raises KeyError for every string that
  is not a member name.
\<close>

datatype SISTRCommands = index

definition SISTRCommands_getitem :: "string \<Rightarrow> error + SISTRCommands" where
  "SISTRCommands_getitem cmd =
     (if cmd = ''index'' then Inr index else Inl (KeyError cmd))"

record sistr_args =
  command :: string

text \<open>
  What a run of \<open>main\<close> does: the warnings sent to \<open>common.WARNING\<close>, in order, and
  how it ends. \<open>sys.exit(1)\<close> is \<open>Exited 1\<close>; falling off the end of the function
  is \<open>Returned None\<close>.
\<close>

datatype 'r ending = Exited int | Returned "'r option"

text \<open>
  \<open>index.main\<close> lives in another module; it is the parameter \<open>index_main\<close>.
\<close>

definition siSTR_main ::
  "('a sistr_args_scheme \<Rightarrow> 'r) \<Rightarrow> 'a sistr_args_scheme \<Rightarrow> string list \<times> 'r ending" where
  "siSTR_main index_main args =
     (case SISTRCommands_getitem (command args) of
        Inl e \<Rightarrow> ([''Command '' @ command args @ '' invalid''], Exited 1)
      | Inr cmd \<Rightarrow>
          (if cmd = index then ([], Returned (Some (index_main args)))
           else ([], Returned None)))"

section \<open>dumpSTR: the locus statistics table\<close>

text \<open>
  Lines 1193-1197 of \<open>main\<close>: the table is created empty, the three fixed counters
  are inserted, then one counter per locus filter, keyed by \<open>filt.filter_name()\<close>.
  \<open>init_loc_info\<close> takes the list of those names in registration order.
\<close>

definition init_loc_info :: "string list \<Rightarrow> (string \<times> int) list" where
  "init_loc_info filter_names =
     fold (\<lambda>nm loc_info. AList.update nm 0 loc_info) filter_names
       (AList.update ''NO_CALLS_REMAINING'' 0
         (AList.update ''PASS'' 0
           (AList.update ''totalcalls'' 0 [])))"

section \<open>dumpSTR: records, filters and numpy arrays\<close>

text \<open>
  A per-sample FORMAT array as \<open>record.format[field]\<close> returns it, by the kind of its
  numpy dtype: \<open>'U'\<close> (text), \<open>'f'\<close> (float), \<open>'i'\<close> (integer); every other kind is
  \<open>OtherVals\<close>. One entry per sample.
\<close>

datatype ndarray =
    StrVals "string list"
  | FloatVals "pyfloat list"
  | IntVals "int list"
  | OtherVals

datatype info_val = InfoInt int | InfoFloat pyfloat | InfoStr string

text \<open>
  The harmonised record together with the cyvcf2 variant it wraps. \<open>genotypes\<close> holds,
  per sample, the allele indices and the phased flag; \<open>format\<close> is the mapping from
  FORMAT field name to array, in the record's field order; \<open>FILTER\<close> and \<open>INFO\<close> are
  the locus-level columns. \<open>full_alleles\<close> is present exactly when the record has
  full string genotypes; its first component is the full reference allele.
  \<open>format_header\<close> lists the FORMAT ids that the header of the VCF declares; the
  FORMAT fields of a record are among them.
\<close>

record TRRecord =
  chrom :: string
  pos :: int
  genotypes :: "(int list \<times> bool) list"
  format :: "(string \<times> ndarray) list"
  FILTER :: string
  INFO :: "(string \<times> info_val) list"
  ref_allele :: string
  alt_alleles :: "string list"
  full_alleles :: "(string \<times> string list) option"
  format_header :: "string list"

text \<open>
  Modelled from the spec: \<open>TRRecord.GetNumSamples\<close>, \<open>GetCalledSamples\<close> and
  \<open>GetMaxPloidy\<close> are methods of \<open>trtools.utils.tr_harmonizer\<close>, which is not among
  the sources. The spec's record has a genotype matrix, sample by ploidy, whose values
  are allele indices or a missing sentinel; a sample is called when none of its entries
  is the missing sentinel \<open>-1\<close>, and the maximum ploidy is the longest genotype row.
\<close>

definition GetNumSamples :: "TRRecord \<Rightarrow> nat" where
  "GetNumSamples record = length (genotypes record)"

definition GetCalledSamples :: "TRRecord \<Rightarrow> bool list" where
  "GetCalledSamples record = map (\<lambda>gt. (-1) \<notin> set (fst gt)) (genotypes record)"

definition GetMaxPloidy :: "TRRecord \<Rightarrow> nat" where
  "GetMaxPloidy record = foldr (\<lambda>gt m. max (length (fst gt)) m) (genotypes record) 0"

text \<open>
  Modelled from the spec: \<open>record.format[field]\<close> is the lookup of
  \<open>trtools.utils.tr_harmonizer\<close> on the cyvcf2 variant, which is not among the
  sources. The spec's depth rule has three outcomes (the primary field, the fallback
  field, no depth tracked), and the source handles three results of the lookup: an array,
  \<open>None\<close> (the test of line 630) and KeyError (the handlers of lines 626 and 628).
  The lookup gives the array of a field the record carries, \<open>None\<close> for a field that
  the header declares and the record does not carry, and raises KeyError for a field
  that the header does not declare.
\<close>

definition format_getitem :: "TRRecord \<Rightarrow> string \<Rightarrow> error + ndarray option" where
  "format_getitem record field =
     (case map_of (format record) field of
        Some vals \<Rightarrow> Inr (Some vals)
      | None \<Rightarrow>
          (if field \<in> set (format_header record) then Inr None
           else Inl (KeyError field)))"

text \<open>
  A call-level filter has a \<open>name\<close> and is called on the record (\<open>filt(record)\<close>),
  giving one float per sample, not-a-number where the filter does not fire. A
  locus-level filter has a \<open>filter_name()\<close> and is called on the record, giving
  \<open>None\<close> or a reason.
\<close>

record call_filter =
  name :: string
  call :: "TRRecord \<Rightarrow> pyfloat list"

record locus_filter =
  filter_name :: string
  locus_call :: "TRRecord \<Rightarrow> string option"

text \<open>
  The statistics tables. Every array of the sample table is a list of \<open>pyfloat\<close>: the
  integer counters hold whole numbers, and nan only ever enters \<open>totaldp\<close>.
\<close>

type_synonym sample_info = "(string \<times> pyfloat list) list"
type_synonym loc_info = "(string \<times> int) list"

definition NOCALL_INT_FORMAT_VAL :: int where
  "NOCALL_INT_FORMAT_VAL = -2147483648"

subsection \<open>numpy operations used by the filters\<close>

text \<open>
  A numpy text array has a fixed item width (the \<open>N\<close> of dtype \<open>'UN'\<close>), carried next
  to the items. \<open>np.empty(n, 'U4')\<close> is read as \<open>n\<close> empty strings of width 4, which is
  what the code relies on. Storing into an existing array (\<open>a[mask] = s\<close>) keeps the
  array's width and cuts \<open>s\<close> to it: \<open>setitem\<close>. \<open>np.char.add\<close> builds a new array whose
  width is the sum of its operands' widths; the width of a scalar string is its length,
  and at least 1. \<open>np.char.mod('%g', a)\<close> builds an array as wide as its longest item.

  \<open>'%g' % x\<close> for a float that is not nan belongs to the Python runtime: it is the
  parameter \<open>fmt_g\<close>. A nan renders as \<open>nan\<close>.
\<close>

definition np_empty :: "nat \<Rightarrow> string list" where
  "np_empty n = replicate n []"

definition setitem :: "nat \<Rightarrow> string \<Rightarrow> string" where
  "setitem w s = take w s"

definition itemsize :: "string \<Rightarrow> nat" where
  "itemsize s = max 1 (length s)"

definition array_itemsize :: "string list \<Rightarrow> nat" where
  "array_itemsize xs = foldr (\<lambda>s m. max (length s) m) xs 1"

fun char_mod_g :: "(real \<Rightarrow> string) \<Rightarrow> pyfloat \<Rightarrow> string" where
  "char_mod_g fmt_g NaN = ''nan''"
| "char_mod_g fmt_g (Flt x) = fmt_g x"

fun pf_add :: "pyfloat \<Rightarrow> pyfloat \<Rightarrow> pyfloat" where
  "pf_add (Flt x) (Flt y) = Flt (x + y)"
| "pf_add a b = NaN"

fun pf_lt :: "pyfloat \<Rightarrow> real \<Rightarrow> bool" where
  "pf_lt (Flt x) y = (x < y)"
| "pf_lt NaN y = False"

fun pf_gt :: "pyfloat \<Rightarrow> real \<Rightarrow> bool" where
  "pf_gt (Flt x) y = (x > y)"
| "pf_gt NaN y = False"

text \<open>\<open>counts += mask\<close>: a true entry of the boolean mask adds one.\<close>

definition add_mask :: "pyfloat list \<Rightarrow> bool list \<Rightarrow> pyfloat list" where
  "add_mask counts msk = map2 (\<lambda>c b. if b then pf_add c (Flt 1) else c) counts msk"

text \<open>\<open>d[k] += n\<close> on a table of integers.\<close>

definition dict_add :: "string \<Rightarrow> int \<Rightarrow> loc_info \<Rightarrow> error + loc_info" where
  "dict_add k n d =
     (case map_of d k of
        None \<Rightarrow> Inl (KeyError k)
      | Some c \<Rightarrow> Inr (AList.update k (c + n) d))"

section \<open>dumpSTR: ApplyCallFilters\<close>

text \<open>
  The loop over \<open>call_filters\<close> (lines 588-608). Its state is the sample statistics
  table and the text array \<open>all_filter_text\<close> (width and items). A filter whose output
  is all nan is skipped. Otherwise the filter's counter goes up for every sample where
  it fired and that is not already a no-call, a comma is stored in place behind the text
  of every sample that already has text and where the filter fired, and the filter's
  text is added.
\<close>

definition add_filter_text ::
  "(real \<Rightarrow> string) \<Rightarrow> string \<Rightarrow> pyfloat list \<Rightarrow> nat \<times> string list \<Rightarrow> nat \<times> string list" where
  "add_filter_text fmt_g filt_name filt_output wt =
     (case wt of (w, all_filter_text) \<Rightarrow>
        (let nans = map isnan filt_output;
             w_text = itemsize filt_name +
                        (1 + array_itemsize (map (char_mod_g fmt_g) filt_output));
             filt_output_text =
               map (\<lambda>v. if isnan v then [] else filt_name @ ''_'' @ char_mod_g fmt_g v)
                 filt_output;
             not_first_filter = map2 (\<lambda>n t. \<not> n \<and> t \<noteq> []) nans all_filter_text;
             all_filter_text' =
               map2 (\<lambda>nf t. if nf then setitem w (t @ '','') else t)
                 not_first_filter all_filter_text
         in (w + w_text, map2 (@) all_filter_text' filt_output_text)))"

fun call_filter_loop ::
  "(real \<Rightarrow> string) \<Rightarrow> TRRecord \<Rightarrow> bool list \<Rightarrow> call_filter list \<Rightarrow>
   sample_info \<times> nat \<times> string list \<Rightarrow> error + (sample_info \<times> nat \<times> string list)" where
  "call_filter_loop fmt_g record nocalls [] st = Inr st"
| "call_filter_loop fmt_g record nocalls (filt # rest) (sample_info, all_filter_text) =
     (let filt_output = call filt record;
          nans = map isnan filt_output
      in if list_all id nans then
           call_filter_loop fmt_g record nocalls rest (sample_info, all_filter_text)
         else
           (case map_of sample_info (name filt) of
              None \<Rightarrow> Inl (KeyError (name filt))
            | Some counts \<Rightarrow>
                call_filter_loop fmt_g record nocalls rest
                  (AList.update (name filt)
                     (add_mask counts (map2 (\<lambda>n c. \<not> n \<and> \<not> c) nans nocalls)) sample_info,
                   add_filter_text fmt_g (name filt) filt_output all_filter_text)))"

text \<open>
  Lines 610-618. If any sample is a no-call, the text of every no-call is emptied and
  \<open>NOCALL\<close> is added to it from a fresh array of width 6. Then every empty text
  becomes \<open>PASS\<close>.
\<close>

definition append_NOCALL :: "bool list \<Rightarrow> nat \<times> string list \<Rightarrow> nat \<times> string list" where
  "append_NOCALL nocalls wt =
     (case wt of (w, all_filter_text) \<Rightarrow>
        if list_ex id nocalls then
          (let nocall_text = map (\<lambda>nc. if nc then setitem 6 ''NOCALL'' else []) nocalls;
               all_filter_text' =
                 map2 (\<lambda>nc t. if nc then setitem w [] else t) nocalls all_filter_text
           in (w + 6, map2 (@) all_filter_text' nocall_text))
        else (w, all_filter_text))"

definition mark_PASS :: "nat \<times> string list \<Rightarrow> string list" where
  "mark_PASS wt =
     (case wt of (w, all_filter_text) \<Rightarrow>
        map (\<lambda>t. if t = [] then setitem w ''PASS'' else t) all_filter_text)"

text \<open>
  Lines 623-629. The handler of the first \<open>try\<close> clause catches the KeyError of the
  lookup of \<open>DP\<close> and looks \<open>LC\<close> up. That lookup runs inside the handler; an
  exception raised inside a handler is not handled by the other \<open>except\<close> clauses of
  the same \<open>try\<close> statement, so a KeyError for \<open>LC\<close> leaves the function. A
  lookup of \<open>DP\<close> that gives \<open>None\<close> raises nothing, so \<open>LC\<close> is not looked up
  then.
\<close>

definition get_dp_vals :: "TRRecord \<Rightarrow> error + ndarray option" where
  "get_dp_vals record =
     (case format_getitem record ''DP'' of
        Inr dp_vals \<Rightarrow> Inr dp_vals
      | Inl (KeyError k) \<Rightarrow> format_getitem record ''LC''
      | Inl e \<Rightarrow> Inl e)"

text \<open>
  The depth array as numbers: an integer or a float array. Comparing a text array with a
  number is a type error.
\<close>

fun depth_numbers :: "ndarray \<Rightarrow> error + pyfloat list" where
  "depth_numbers (IntVals xs) = Inr (map (\<lambda>x. Flt (real_of_int x)) xs)"
| "depth_numbers (FloatVals xs) = Inr xs"
| "depth_numbers (StrVals xs) = Inl TypeError_depth"
| "depth_numbers OtherVals = Inl TypeError_depth"

text \<open>
  Lines 630-647. \<open>negative_dp\<close> is the test of lines 632-633 for one sample: the
  depth is below zero and is not the missing value, and the call is extant.
  \<open>sample_names\<close> is a Python list of strings (the annotation of line 551, and
  \<open>invcf.samples\<close> at line 1221); subscripting a list with a numpy boolean array
  raises TypeError, for every list and every array (\<open>list_getitem\<close>). The
  subscript is evaluated while the message of the ValueError is built, so the TypeError
  is what leaves the function.
\<close>

definition list_getitem :: "string list \<Rightarrow> bool list \<Rightarrow> error + string list" where
  "list_getitem xs msk = Inl TypeError_list_indices"

definition negative_dp :: "pyfloat \<Rightarrow> bool \<Rightarrow> bool" where
  "negative_dp d extant =
     ((pf_lt d 0 \<and> d \<noteq> Flt (real_of_int NOCALL_INT_FORMAT_VAL)) \<and> extant)"

definition depth_accounting ::
  "TRRecord \<Rightarrow> string list \<Rightarrow> bool list \<Rightarrow> sample_info \<Rightarrow> error + sample_info" where
  "depth_accounting record sample_names extant_calls sample_info =
     (case get_dp_vals record of
        Inl e \<Rightarrow> Inl e
      | Inr None \<Rightarrow>
          (case map_of sample_info ''totaldp'' of
             None \<Rightarrow> Inl (KeyError ''totaldp'')
           | Some totaldp \<Rightarrow>
               Inr (AList.update ''totaldp'' (map (\<lambda>t. NaN) totaldp) sample_info))
      | Inr (Some vals) \<Rightarrow>
          (case depth_numbers vals of
             Inl e \<Rightarrow> Inl e
           | Inr dp_vals \<Rightarrow>
               (let negative_dp_called_samples = map2 negative_dp dp_vals extant_calls
                in if list_ex id negative_dp_called_samples then
                     (case list_getitem sample_names negative_dp_called_samples of
                        Inl e \<Rightarrow> Inl e
                      | Inr names \<Rightarrow>
                          Inl (ValueError_negative_DP (chrom record) (pos record) names))
                   else
                     (case map_of sample_info ''totaldp'' of
                        None \<Rightarrow> Inl (KeyError ''totaldp'')
                      | Some totaldp \<Rightarrow>
                          (let accumulated =
                                 map2 (\<lambda>t (d, e). if e \<and> pf_gt d 0 then pf_add t d else t)
                                   totaldp (zip dp_vals extant_calls);
                               poisoned =
                                 map2 (\<lambda>t (d, e).
                                         if e \<and> d = Flt (real_of_int NOCALL_INT_FORMAT_VAL)
                                         then NaN else t)
                                   accumulated (zip dp_vals extant_calls)
                           in Inr (AList.update ''totaldp'' poisoned sample_info))))))"

text \<open>
  Lines 655-680: the genotype of every filtered sample becomes \<open>[-1]*ploidy + [False]\<close>,
  and every FORMAT field other than \<open>GT\<close> and \<open>FILTER\<close> gets the null value of its
  dtype at the filtered samples; any other dtype is a ValueError naming the field.
\<close>

fun mask_vals :: "bool list \<Rightarrow> string \<Rightarrow> ndarray \<Rightarrow> error + ndarray" where
  "mask_vals filtered_samples field (StrVals vals) =
     Inr (StrVals (map2 (\<lambda>f v. if f then ''.'' else v) filtered_samples vals))"
| "mask_vals filtered_samples field (FloatVals vals) =
     Inr (FloatVals (map2 (\<lambda>f v. if f then NaN else v) filtered_samples vals))"
| "mask_vals filtered_samples field (IntVals vals) =
     Inr (IntVals (map2 (\<lambda>f v. if f then NOCALL_INT_FORMAT_VAL else v) filtered_samples vals))"
| "mask_vals filtered_samples field OtherVals = Inl (ValueError_unexpected_dtype field)"

fun mask_format ::
  "bool list \<Rightarrow> (string \<times> ndarray) list \<Rightarrow> error + (string \<times> ndarray) list" where
  "mask_format filtered_samples [] = Inr []"
| "mask_format filtered_samples ((field, vals) # rest) =
     (if field = ''GT'' \<or> field = ''FILTER'' then
        (case mask_format filtered_samples rest of
           Inl e \<Rightarrow> Inl e
         | Inr rest' \<Rightarrow> Inr ((field, vals) # rest'))
      else
        (case mask_vals filtered_samples field vals of
           Inl e \<Rightarrow> Inl e
         | Inr vals' \<Rightarrow>
             (case mask_format filtered_samples rest of
                Inl e \<Rightarrow> Inl e
              | Inr rest' \<Rightarrow> Inr ((field, vals') # rest'))))"

text \<open>
  Lines 682-717 rebuild the \<open>TRRecord\<close> around the same cyvcf2 variant, passing the
  alleles or their lengths as the input record had them; in this record model the
  rebuilt record has the fields of the masked one.
\<close>

definition mask_record :: "bool list \<Rightarrow> TRRecord \<Rightarrow> error + TRRecord" where
  "mask_record filtered_samples record =
     (let ploidy = GetMaxPloidy record;
          record' = record\<lparr>genotypes :=
                      map2 (\<lambda>f gt. if f then (replicate ploidy (-1), False) else gt)
                        filtered_samples (genotypes record)\<rparr>
      in case mask_format filtered_samples (format record') of
           Inl e \<Rightarrow> Inl e
         | Inr format' \<Rightarrow> Inr (record'\<lparr>format := format'\<rparr>))"

text \<open>
  Lines 619-717, from the final text of every sample on: the text is written to the
  FORMAT field \<open>FILTER\<close>, the calls that passed are counted, depth is accounted for,
  and the filtered samples are masked.
\<close>

definition finish_call_filters ::
  "TRRecord \<Rightarrow> string list \<Rightarrow> sample_info \<Rightarrow> string list \<Rightarrow> error + (TRRecord \<times> sample_info)" where
  "finish_call_filters record sample_names sample_info all_filter_text =
     (let record1 = record\<lparr>format :=
                      AList.update ''FILTER'' (StrVals all_filter_text) (format record)\<rparr>;
          extant_calls = map (\<lambda>t. t = ''PASS'') all_filter_text
      in case map_of sample_info ''numcalls'' of
           None \<Rightarrow> Inl (KeyError ''numcalls'')
         | Some numcalls \<Rightarrow>
             (case depth_accounting record1 sample_names extant_calls
                     (AList.update ''numcalls'' (add_mask numcalls extant_calls) sample_info) of
                Inl e \<Rightarrow> Inl e
              | Inr sample_info' \<Rightarrow>
                  (let filtered_samples =
                         map (\<lambda>t. t \<noteq> ''PASS'' \<and> t \<noteq> ''NOCALL'') all_filter_text
                   in if \<not> list_ex id filtered_samples then Inr (record1, sample_info')
                      else
                        (case mask_record filtered_samples record1 of
                           Inl e \<Rightarrow> Inl e
                         | Inr out_record \<Rightarrow> Inr (out_record, sample_info')))))"

text \<open>
  The function returns the record; the table \<open>sample_info\<close>, which the source updates
  in place, is returned next to it.
\<close>

definition ApplyCallFilters ::
  "(real \<Rightarrow> string) \<Rightarrow> TRRecord \<Rightarrow> call_filter list \<Rightarrow> sample_info \<Rightarrow> string list \<Rightarrow>
   error + (TRRecord \<times> sample_info)" where
  "ApplyCallFilters fmt_g record call_filters sample_info sample_names =
     (let nocalls = map Not (GetCalledSamples record)
      in case call_filter_loop fmt_g record nocalls call_filters
                (sample_info, 4, np_empty (GetNumSamples record)) of
           Inl e \<Rightarrow> Inl e
         | Inr (sample_info', w_text) \<Rightarrow>
             finish_call_filters record sample_names sample_info'
               (mark_PASS (append_NOCALL nocalls w_text)))"

subsection \<open>Notions used to state the properties of ApplyCallFilters\<close>

text \<open>
  What one filter does to the table and to the text array, as functions of the state;
  the loop is their fold when no counter is missing.
\<close>

definition count_step :: "TRRecord \<Rightarrow> bool list \<Rightarrow> call_filter \<Rightarrow> sample_info \<Rightarrow> sample_info" where
  "count_step record nocalls filt =
     (if list_all isnan (call filt record) then id
      else AList.map_entry (name filt)
             (\<lambda>counts. add_mask counts
                (map2 (\<lambda>n c. \<not> n \<and> \<not> c) (map isnan (call filt record)) nocalls)))"

definition text_step ::
  "(real \<Rightarrow> string) \<Rightarrow> TRRecord \<Rightarrow> call_filter \<Rightarrow> nat \<times> string list \<Rightarrow> nat \<times> string list" where
  "text_step fmt_g record filt =
     (if list_all isnan (call filt record) then id
      else add_filter_text fmt_g (name filt) (call filt record))"

text \<open>The final text of every sample, from the fold of the text steps.\<close>

definition final_text :: "(real \<Rightarrow> string) \<Rightarrow> TRRecord \<Rightarrow> call_filter list \<Rightarrow> string list" where
  "final_text fmt_g record call_filters =
     mark_PASS (append_NOCALL (map Not (GetCalledSamples record))
       (fold (text_step fmt_g record) call_filters (4, np_empty (GetNumSamples record))))"

text \<open>
  Sample by sample: the sample is called and no filter fires on it (\<open>passes\<close>), or it is
  called and some filter fires on it (\<open>filtered_by\<close>).
\<close>

definition passes :: "TRRecord \<Rightarrow> call_filter list \<Rightarrow> bool list" where
  "passes record call_filters =
     map (\<lambda>i. GetCalledSamples record ! i \<and> list_all (\<lambda>f. isnan (call f record ! i)) call_filters)
       [0..<GetNumSamples record]"

definition filtered_by :: "TRRecord \<Rightarrow> call_filter list \<Rightarrow> bool list" where
  "filtered_by record call_filters =
     map (\<lambda>i. GetCalledSamples record ! i \<and> list_ex (\<lambda>f. \<not> isnan (call f record ! i)) call_filters)
       [0..<GetNumSamples record]"

text \<open>
  The entries \<open>name_value\<close> of the filters that fire on sample \<open>i\<close>, in the order of
  the filter list.
\<close>

definition entries :: "(real \<Rightarrow> string) \<Rightarrow> TRRecord \<Rightarrow> call_filter list \<Rightarrow> nat \<Rightarrow> string list" where
  "entries fmt_g record call_filters i =
     map (\<lambda>f. name f @ ''_'' @ char_mod_g fmt_g (call f record ! i))
       (filter (\<lambda>f. \<not> isnan (call f record ! i)) call_filters)"

text \<open>
  The filters give one value per sample, and the table has a counter for every filter,
  as \<open>main\<close> sets it up.
\<close>

definition filters_fit :: "TRRecord \<Rightarrow> call_filter list \<Rightarrow> bool" where
  "filters_fit record call_filters =
     list_all (\<lambda>f. length (call f record) = GetNumSamples record) call_filters"

definition has_counters :: "sample_info \<Rightarrow> call_filter list \<Rightarrow> bool" where
  "has_counters sample_info call_filters =
     list_all (\<lambda>f. map_of sample_info (name f) \<noteq> None) call_filters"

text \<open>
  What is left of a result when the wording of the trigger text is put aside: the record
  without its FORMAT field \<open>FILTER\<close>, the status of every sample (\<open>PASS\<close>, \<open>NOCALL\<close>
  or filtered), and the table.
\<close>

definition trigger_text :: "TRRecord \<Rightarrow> string list" where
  "trigger_text record =
     (case map_of (format record) ''FILTER'' of Some (StrVals ts) \<Rightarrow> ts | _ \<Rightarrow> [])"

definition call_status :: "string \<Rightarrow> string" where
  "call_status t = (if t = ''PASS'' \<or> t = ''NOCALL'' then t else ''filtered'')"

definition outcome :: "TRRecord \<times> sample_info \<Rightarrow> TRRecord \<times> string list \<times> sample_info" where
  "outcome res =
     (fst res\<lparr>format := AList.delete ''FILTER'' (format (fst res))\<rparr>,
      map call_status (trigger_text (fst res)),
      snd res)"

section \<open>dumpSTR: ApplyLocusFilters\<close>

text \<open>
  How a firing reason reaches the locus FILTER column: the first reason sets it, a later
  one is added behind a semicolon.
\<close>

definition add_reason :: "bool \<Rightarrow> string \<Rightarrow> TRRecord \<Rightarrow> TRRecord" where
  "add_reason filtered reason record =
     (if \<not> filtered then record\<lparr>FILTER := reason\<rparr>
      else record\<lparr>FILTER := FILTER record @ '';'' @ reason\<rparr>)"

text \<open>
  The loop over \<open>locus_filters\<close> (lines 880-890); its state is the record, the locus
  statistics table and the flag \<open>filtered\<close>. Each filter sees the record as the
  filters before it left it.
\<close>

fun locus_filter_loop ::
  "bool \<Rightarrow> locus_filter list \<Rightarrow> TRRecord \<times> loc_info \<times> bool \<Rightarrow>
   error + (TRRecord \<times> loc_info \<times> bool)" where
  "locus_filter_loop drop_filtered [] st = Inr st"
| "locus_filter_loop drop_filtered (filt # rest) (record, loc_info, filtered) =
     (case locus_call filt record of
        None \<Rightarrow> locus_filter_loop drop_filtered rest (record, loc_info, filtered)
      | Some reason \<Rightarrow>
          (case dict_add (filter_name filt) 1 loc_info of
             Inl e \<Rightarrow> Inl e
           | Inr loc_info' \<Rightarrow>
               locus_filter_loop drop_filtered rest
                 (if \<not> drop_filtered then add_reason filtered (filter_name filt) record
                  else record,
                  loc_info', True)))"

text \<open>Lines 892-900: the check that some sample is still called.\<close>

definition no_calls_check ::
  "bool \<Rightarrow> int \<Rightarrow> TRRecord \<times> loc_info \<times> bool \<Rightarrow> error + (TRRecord \<times> loc_info \<times> bool)" where
  "no_calls_check drop_filtered n_samples_called st =
     (case st of (record, loc_info, filtered) \<Rightarrow>
        if n_samples_called = 0 then
          (case dict_add ''NO_CALLS_REMAINING'' 1 loc_info of
             Inl e \<Rightarrow> Inl e
           | Inr loc_info' \<Rightarrow>
               Inr (if \<not> drop_filtered then add_reason filtered ''NO_CALLS_REMAINING'' record
                    else record,
                    loc_info', True))
        else Inr st)"

text \<open>Lines 902-908: the locus passed.\<close>

definition pass_check ::
  "bool \<Rightarrow> int \<Rightarrow> TRRecord \<times> loc_info \<times> bool \<Rightarrow> error + (TRRecord \<times> loc_info \<times> bool)" where
  "pass_check drop_filtered n_samples_called st =
     (case st of (record, loc_info, filtered) \<Rightarrow>
        if \<not> filtered then
          (case dict_add ''PASS'' 1 loc_info of
             Inl e \<Rightarrow> Inl e
           | Inr loc_info' \<Rightarrow>
               (case dict_add ''totalcalls'' n_samples_called loc_info' of
                  Inl e \<Rightarrow> Inl e
                | Inr loc_info'' \<Rightarrow>
                    Inr (if \<not> drop_filtered then record\<lparr>FILTER := ''PASS''\<rparr> else record,
                         loc_info'', filtered)))
        else Inr st)"

text \<open>
  The function returns the flag; the record and the table, which the source updates in
  place, are returned with it.
\<close>

definition ApplyLocusFilters ::
  "TRRecord \<Rightarrow> locus_filter list \<Rightarrow> loc_info \<Rightarrow> bool \<Rightarrow> error + (TRRecord \<times> loc_info \<times> bool)" where
  "ApplyLocusFilters record locus_filters loc_info drop_filtered =
     (case locus_filter_loop drop_filtered locus_filters (record, loc_info, False) of
        Inl e \<Rightarrow> Inl e
      | Inr st \<Rightarrow>
          (let n_samples_called = int (length (filter id (GetCalledSamples (fst st))))
           in case no_calls_check drop_filtered n_samples_called st of
                Inl e \<Rightarrow> Inl e
              | Inr st' \<Rightarrow> pass_check drop_filtered n_samples_called st'))"

section \<open>dumpSTR: one record through main\<close>

text \<open>
  The metric functions of \<open>trtools.utils.utils\<close> and of the harmonised record are not
  among the sources; \<open>main\<close> takes them as the fields of \<open>metric_library\<close>. Allele
  frequencies and genotype counts are passed through untouched, so their types are
  parameters. \<open>GetAlleleCounts\<close> gives the table from allele index to count.
\<close>

record ('fr, 'gc) metric_library =
  GetHomopolymerRun :: "string \<Rightarrow> int"
  GetAlleleFreqs :: "TRRecord \<Rightarrow> bool \<Rightarrow> 'fr"
  GetGenotypeCounts :: "TRRecord \<Rightarrow> bool \<Rightarrow> 'gc"
  GetHeterozygosity :: "'fr \<Rightarrow> pyfloat"
  GetHardyWeinbergBinomialTest :: "'fr \<Rightarrow> 'gc \<Rightarrow> pyfloat"
  GetAlleleCounts :: "TRRecord \<Rightarrow> (nat \<times> int) list"

text \<open>\<open>str(n)\<close> for an integer and \<open>sep.join(xs)\<close>.\<close>

fun str_nat :: "nat \<Rightarrow> string" where
  "str_nat n =
     (if n < 10 then [''0123456789'' ! n]
      else str_nat (n div 10) @ [''0123456789'' ! (n mod 10)])"

declare str_nat.simps [simp del]

definition str_int :: "int \<Rightarrow> string" where
  "str_int i = (if i < 0 then ''-'' @ str_nat (nat (- i)) else str_nat (nat i))"

fun join :: "string \<Rightarrow> string list \<Rightarrow> string" where
  "join sep [] = []"
| "join sep [x] = x"
| "join sep (x # y # ys) = x @ sep @ join sep (y # ys)"

definition set_INFO :: "string \<Rightarrow> info_val \<Rightarrow> TRRecord \<Rightarrow> TRRecord" where
  "set_INFO key val record = record\<lparr>INFO := AList.update key val (INFO record)\<rparr>"

text \<open>Lines 1238-1267: the locus-level INFO fields are recalculated.\<close>

definition recalculate_INFO ::
  "('fr, 'gc) metric_library \<Rightarrow> bool \<Rightarrow> TRRecord \<Rightarrow> TRRecord" where
  "recalculate_INFO lib use_length record0 =
     (let record =
            (case full_alleles record0 of
               Some full \<Rightarrow> set_INFO ''HRUN'' (InfoInt (GetHomopolymerRun lib (fst full))) record0
             | None \<Rightarrow>
                 set_INFO ''HRUN'' (InfoInt (GetHomopolymerRun lib (ref_allele record0))) record0)
      in if length (filter id (GetCalledSamples record)) > 0 then
           (let allele_freqs = GetAlleleFreqs lib record use_length;
                genotype_counts = GetGenotypeCounts lib record use_length;
                record1 = set_INFO ''HET'' (InfoFloat (GetHeterozygosity lib allele_freqs)) record;
                record2 = set_INFO ''HWEP''
                            (InfoFloat (GetHardyWeinbergBinomialTest lib allele_freqs
                                          genotype_counts)) record1;
                allele_counts = GetAlleleCounts lib record2;
                n_alleles = length (alt_alleles record2) + 1;
                count = (\<lambda>idx. case map_of allele_counts idx of None \<Rightarrow> 0 | Some c \<Rightarrow> c);
                record3 =
                  (if n_alleles = 1 then set_INFO ''AC'' (InfoInt 0) record2
                   else set_INFO ''AC''
                          (InfoStr (join '','' (map (\<lambda>idx. str_int (count idx)) [1..<n_alleles])))
                          record2)
            in set_INFO ''REFAC'' (InfoInt (count 0)) record3)
         else
           (let record1 = set_INFO ''HET'' (InfoInt (-1)) record;
                record2 = set_INFO ''HWEP'' (InfoInt (-1)) record1;
                record3 =
                  (if length (alt_alleles record2) = 0 then set_INFO ''AC'' (InfoInt 0) record2
                   else set_INFO ''AC''
                          (InfoStr (join '','' (replicate (length (alt_alleles record2)) ''0'')))
                          record2)
            in set_INFO ''REFAC'' (InfoInt 0) record3))"

text \<open>
  The body of the loop of \<open>main\<close> for one record (lines 1220-1269): call filters, locus
  filters, then the record is dropped, or annotated and written. The two statistics
  tables are carried along.
\<close>

datatype written = Dropped | Emitted TRRecord

definition process_record ::
  "('fr, 'gc) metric_library \<Rightarrow> (real \<Rightarrow> string) \<Rightarrow> bool \<Rightarrow> bool \<Rightarrow>
   call_filter list \<Rightarrow> locus_filter list \<Rightarrow> string list \<Rightarrow>
   sample_info \<times> loc_info \<Rightarrow> TRRecord \<Rightarrow> error + (written \<times> sample_info \<times> loc_info)" where
  "process_record lib fmt_g use_length drop_filtered call_filters locus_filters samples
     tables record0 =
     (case ApplyCallFilters fmt_g record0 call_filters (fst tables) samples of
        Inl e \<Rightarrow> Inl e
      | Inr (record, sample_info) \<Rightarrow>
          (case ApplyLocusFilters record locus_filters (snd tables) drop_filtered of
             Inl e \<Rightarrow> Inl e
           | Inr (record', loc_info, locus_filtered) \<Rightarrow>
               if drop_filtered \<and> locus_filtered then Inr (Dropped, sample_info, loc_info)
               else Inr (Emitted (recalculate_INFO lib use_length record'), sample_info,
                         loc_info)))"

section \<open>dumpSTR: setting up a run, and example inputs\<close>

text \<open>
  Lines 1180-1188 of \<open>main\<close>: the sample statistics table starts with \<open>numcalls\<close>
  and \<open>totaldp\<close>, then one counter array per call filter name, all zero.
\<close>

definition init_sample_info :: "nat \<Rightarrow> string list \<Rightarrow> sample_info" where
  "init_sample_info n filter_names =
     fold (\<lambda>nm sample_info. AList.update nm (replicate n (Flt 0)) sample_info) filter_names
       (AList.update ''totaldp'' (replicate n (Flt 0))
         (AList.update ''numcalls'' (replicate n (Flt 0)) []))"

text \<open>
  The examples below use whole depths and metric values between 0 and 999999, where
  \<open>'%g'\<close> prints the decimal digits of the number.
\<close>

definition fmt_g_whole :: "real \<Rightarrow> string" where
  "fmt_g_whole x = str_nat (nat \<lfloor>x\<rfloor>)"

text \<open>Three called samples with depths 5, 15 and 10.\<close>

definition locus_called :: TRRecord where
  "locus_called =
     \<lparr>chrom = ''chr1'', pos = 1000,
      genotypes = [([0, 1], False), ([1, 1], False), ([0, 0], False)],
      format = [(''DP'', IntVals [5, 15, 10])],
      FILTER = ''.'', INFO = [], ref_allele = ''CAGCAG'', alt_alleles = [''CAGCAGCAG''],
      full_alleles = None, format_header = [''GT'', ''DP'']\<rparr>"

text \<open>The same locus with no sample called.\<close>

definition locus_uncalled :: TRRecord where
  "locus_uncalled =
     locus_called\<lparr>genotypes := [([-1, -1], False), ([-1, -1], False), ([-1, -1], False)],
                  format := [(''DP'', IntVals [-2147483648, -2147483648, -2147483648])]\<rparr>"

text \<open>
  A locus of a VCF whose header declares neither \<open>DP\<close> nor \<open>LC\<close>, and a locus
  that carries only \<open>LC\<close> in a VCF whose header declares both.
\<close>

definition locus_no_depth :: TRRecord where
  "locus_no_depth =
     locus_called\<lparr>format := [(''Q'', FloatVals [Flt 1, Flt 1, Flt 1])],
                  format_header := [''GT'', ''Q'']\<rparr>"

definition locus_LC_only :: TRRecord where
  "locus_LC_only =
     locus_called\<lparr>format := [(''LC'', FloatVals [Flt 5, Flt 15, Flt 10])],
                  format_header := [''GT'', ''DP'', ''LC'']\<rparr>"

text \<open>Three called samples, the second with a negative depth.\<close>

definition locus_negative_dp :: TRRecord where
  "locus_negative_dp = locus_called\<lparr>format := [(''DP'', IntVals [5, -3, 10])]\<rparr>"

text \<open>One called sample, and two called samples.\<close>

definition single_sample :: TRRecord where
  "single_sample =
     locus_called\<lparr>genotypes := [([0, 1], False)], format := [(''DP'', IntVals [5])]\<rparr>"

definition two_samples :: TRRecord where
  "two_samples =
     locus_called\<lparr>genotypes := [([0, 1], False), ([1, 1], False)],
                  format := [(''DP'', IntVals [5, 5])]\<rparr>"

text \<open>
  A call filter that reports the depth of every sample whose depth is below 10, a call
  filter that fires on every sample with the value 5, a call filter that fires with the
  value 5 on every sample but the first, and a locus filter that always fires.
\<close>

definition min_depth_10 :: call_filter where
  "min_depth_10 =
     \<lparr>name = ''MinDepth'',
      call = (\<lambda>record. case map_of (format record) ''DP'' of
                Some (IntVals dp) \<Rightarrow> map (\<lambda>d. if d < 10 then Flt (real_of_int d) else NaN) dp
              | _ \<Rightarrow> map (\<lambda>gt. NaN) (genotypes record))\<rparr>"

definition fires_always :: "string \<Rightarrow> call_filter" where
  "fires_always nm = \<lparr>name = nm, call = (\<lambda>record. map (\<lambda>gt. Flt 5) (genotypes record))\<rparr>"

definition fires_after_first :: "string \<Rightarrow> call_filter" where
  "fires_after_first nm =
     \<lparr>name = nm,
      call = (\<lambda>record. case genotypes record of
                [] \<Rightarrow> []
              | gt # gts \<Rightarrow> NaN # map (\<lambda>gt. Flt 5) gts)\<rparr>"

definition hwe_fires :: locus_filter where
  "hwe_fires = \<lparr>filter_name = ''HWE'', locus_call = (\<lambda>record. Some ''HWE'')\<rparr>"

definition no_metrics :: "(unit, unit) metric_library" where
  "no_metrics =
     \<lparr>GetHomopolymerRun = (\<lambda>s. 0), GetAlleleFreqs = (\<lambda>record uselength. ()),
      GetGenotypeCounts = (\<lambda>record uselength. ()), GetHeterozygosity = (\<lambda>fr. NaN),
      GetHardyWeinbergBinomialTest = (\<lambda>fr gc. NaN), GetAlleleCounts = (\<lambda>record. [])\<rparr>"

section \<open>Properties of siSTR\<close>

lemma SISTRCommands_getitem_index:
  "SISTRCommands_getitem ''index'' = Inr index"
  by (simp add: SISTRCommands_getitem_def)

lemma SISTRCommands_getitem_other:
  "cmd \<noteq> ''index'' \<Longrightarrow> SISTRCommands_getitem cmd = Inl (KeyError cmd)"
  by (simp add: SISTRCommands_getitem_def)

text \<open>
  C10. For every command string other than the one member name \<open>index\<close>, \<open>main\<close>
  issues the warning and exits with status 1, whatever the index subcommand would have
  done (it is never called: the outcome does not depend on it). For \<open>index\<close> it returns
  the result of the index subcommand, with no warning.
\<close>

theorem siSTR_main_dispatch:
  "(command args \<noteq> ''index'' \<longrightarrow>
      siSTR_main index_main args = ([''Command '' @ command args @ '' invalid''], Exited 1)
      \<and> siSTR_main index_main args = siSTR_main other_main args)
   \<and> (command args = ''index'' \<longrightarrow>
      siSTR_main index_main args = ([], Returned (Some (index_main args))))"
  by (simp add: siSTR_main_def SISTRCommands_getitem_def)

theorem siSTR_main_dispatch_witness:
  "siSTR_main (\<lambda>a. (0::nat)) \<lparr>command = ''indx''\<rparr> = ([''Command indx invalid''], Exited 1)
   \<and> siSTR_main (\<lambda>a. (7::nat)) \<lparr>command = ''index''\<rparr> = ([], Returned (Some 7))"
  using siSTR_main_dispatch [of "\<lparr>command = ''indx''\<rparr>" "\<lambda>a. (0::nat)" "\<lambda>a. (1::nat)"]
        siSTR_main_dispatch [of "\<lparr>command = ''index''\<rparr>" "\<lambda>a. (7::nat)" "\<lambda>a. (7::nat)"]
  by simp

section \<open>Properties of the locus statistics table\<close>

lemma fold_update_keys:
  "distinct nms \<Longrightarrow> set nms \<inter> fst ` set al = {} \<Longrightarrow>
   map fst (fold (\<lambda>nm d. AList.update nm (0::int) d) nms al) = map fst al @ nms"
proof (induction nms arbitrary: al)
  case Nil
  then show ?case by simp
next
  case (Cons nm nms)
  have k: "map fst (AList.update nm (0::int) al) = map fst al @ [nm]"
    using Cons.prems(2) by (simp add: AList.update_keys)
  have "set nms \<inter> fst ` set (AList.update nm (0::int) al) = {}"
    using Cons.prems by (auto simp: AList.dom_update)
  with Cons.IH [of "AList.update nm 0 al"] Cons.prems(1) k show ?case
    by simp
qed

lemma fold_update_zero:
  "\<forall>p \<in> set al. snd p = (0::int) \<Longrightarrow>
   \<forall>p \<in> set (fold (\<lambda>nm d. AList.update nm (0::int) d) nms al). snd p = 0"
proof (induction nms arbitrary: al)
  case Nil
  then show ?case by simp
next
  case (Cons nm nms)
  have "\<forall>p \<in> set (AList.update nm (0::int) al). snd p = 0"
    using Cons.prems by (induction al) auto
  then show ?case using Cons.IH by simp
qed

text \<open>
  C4 (as stated). The claim puts the \<open>NO_CALLS_REMAINING\<close> counter last. With one
  locus filter registered, the last key of the table is that filter's name.
\<close>

theorem init_loc_info_terminal_counterexample:
  "last (map fst (init_loc_info [''HWE''])) \<noteq> ''NO_CALLS_REMAINING''"
  by (simp add: init_loc_info_def)

text \<open>
  C4 (amended). The table's keys are, in order, \<open>totalcalls\<close>, \<open>PASS\<close>,
  \<open>NO_CALLS_REMAINING\<close>, and then one key per configured locus filter in registration
  order (for filter names that are distinct and differ from the three fixed keys); every
  counter starts at zero.
\<close>

theorem init_loc_info_order:
  assumes "distinct filter_names"
    and "set filter_names \<inter> {''totalcalls'', ''PASS'', ''NO_CALLS_REMAINING''} = {}"
  shows "map fst (init_loc_info filter_names) =
           [''totalcalls'', ''PASS'', ''NO_CALLS_REMAINING''] @ filter_names
         \<and> (\<forall>p \<in> set (init_loc_info filter_names). snd p = 0)"
proof -
  let ?base = "AList.update ''NO_CALLS_REMAINING'' (0::int)
                 (AList.update ''PASS'' 0 (AList.update ''totalcalls'' 0 []))"
  have b: "?base = [(''totalcalls'', 0), (''PASS'', 0), (''NO_CALLS_REMAINING'', 0)]"
    by simp
  have "set filter_names \<inter> fst ` set ?base = {}"
    using assms(2) unfolding b by auto
  from fold_update_keys [OF assms(1) this]
  have "map fst (init_loc_info filter_names) = map fst ?base @ filter_names"
    by (simp only: init_loc_info_def)
  moreover have "\<forall>p \<in> set (init_loc_info filter_names). snd p = 0"
    unfolding init_loc_info_def by (rule fold_update_zero) (simp add: b)
  ultimately show ?thesis unfolding b by simp
qed

theorem init_loc_info_order_witness:
  "map fst (init_loc_info [''HWE'', ''HRUN'']) =
     [''totalcalls'', ''PASS'', ''NO_CALLS_REMAINING'', ''HWE'', ''HRUN'']"
  using init_loc_info_order [of "[''HWE'', ''HRUN'']"] by simp

section \<open>Properties of ApplyLocusFilters\<close>

lemma dict_add_keys:
  "dict_add k n d = Inr d' \<Longrightarrow> fst ` set d' = fst ` set d"
proof -
  assume a: "dict_add k n d = Inr d'"
  then obtain c where c: "map_of d k = Some c" and d': "d' = AList.update k (c + n) d"
    by (auto simp: dict_add_def split: option.splits)
  from c have "k \<in> fst ` set d" by (metis map_of_eq_None_iff option.distinct(1))
  with d' show ?thesis by (auto simp: AList.dom_update)
qed

lemma dict_add_total:
  "k \<in> fst ` set d \<Longrightarrow> \<exists>c. map_of d k = Some c \<and> dict_add k n d = Inr (AList.update k (c + n) d)"
  by (cases "map_of d k") (auto simp: dict_add_def map_of_eq_None_iff)

lemma locus_filter_loop_frame:
  "locus_filter_loop d fs (r, li, f) = Inr (r', li', f') \<Longrightarrow>
     r' = r\<lparr>FILTER := FILTER r'\<rparr> \<and> (d \<longrightarrow> r' = r) \<and> fst ` set li' = fst ` set li"
proof (induction fs arbitrary: r li f)
  case Nil
  then show ?case by simp
next
  case (Cons filt fs)
  show ?case
  proof (cases "locus_call filt r")
    case None
    with Cons.prems have "locus_filter_loop d fs (r, li, f) = Inr (r', li', f')" by simp
    from Cons.IH [OF this] show ?thesis .
  next
    case (Some reason)
    with Cons.prems obtain li1 where a: "dict_add (filter_name filt) 1 li = Inr li1"
      and b: "locus_filter_loop d fs (if \<not> d then add_reason f (filter_name filt) r else r, li1, True) = Inr (r', li', f')"
      by (auto split: sum.splits)
    from Cons.IH [OF b] dict_add_keys [OF a] show ?thesis
      by (auto simp: add_reason_def split: if_splits)
  qed
qed

lemma locus_filter_loop_total:
  "\<forall>x \<in> set fs. filter_name x \<in> fst ` set li \<Longrightarrow>
   \<exists>st. locus_filter_loop d fs (r, li, f) = Inr st"
proof (induction fs arbitrary: r li f)
  case Nil
  then show ?case by simp
next
  case (Cons filt fs)
  show ?case
  proof (cases "locus_call filt r")
    case None
    with Cons show ?thesis by simp
  next
    case (Some reason)
    from Cons.prems dict_add_total [of "filter_name filt" li 1]
    obtain c where a: "dict_add (filter_name filt) 1 li = Inr (AList.update (filter_name filt) (c + 1) li)"
      by auto
    have "\<forall>x \<in> set fs. filter_name x \<in> fst ` set (AList.update (filter_name filt) (c + 1) li)"
      using Cons.prems by (auto simp: AList.dom_update)
    from Cons.IH [OF this] Some a show ?thesis by simp
  qed
qed

lemma GetCalledSamples_FILTER [simp]:
  "GetCalledSamples (r\<lparr>FILTER := s\<rparr>) = GetCalledSamples r"
  by (simp add: GetCalledSamples_def)

lemma count_called_zero:
  "(filter id xs = []) = (\<not> list_ex id xs)"
  by (induction xs) auto

lemmas locus_eval =
  locus_called_def locus_uncalled_def hwe_fires_def init_loc_info_def GetCalledSamples_def
  dict_add_def add_reason_def

text \<open>
  C5. With the counters of the configured filters and \<open>NO_CALLS_REMAINING\<close> in the
  table, the loop over the locus filters completes for every record and every filter
  list (the empty one included). If no sample is called, the function then increments
  \<open>NO_CALLS_REMAINING\<close> by one on the table the loop left, adds the reason to the FILTER
  column the loop left when filtered loci are kept (and leaves the record alone when they
  are dropped), and returns true.
\<close>

theorem no_calls_remaining_unconditional:
  assumes "\<forall>f \<in> set locus_filters. filter_name f \<in> fst ` set loc_info"
    and "''NO_CALLS_REMAINING'' \<in> fst ` set loc_info"
    and "\<not> list_ex id (GetCalledSamples record)"
  shows "\<exists>record1 loc_info1 filtered1 c.
           locus_filter_loop drop_filtered locus_filters (record, loc_info, False)
             = Inr (record1, loc_info1, filtered1)
           \<and> map_of loc_info1 ''NO_CALLS_REMAINING'' = Some c
           \<and> ApplyLocusFilters record locus_filters loc_info drop_filtered
             = Inr (if drop_filtered then record
                    else add_reason filtered1 ''NO_CALLS_REMAINING'' record1,
                    AList.update ''NO_CALLS_REMAINING'' (c + 1) loc_info1, True)"
proof -
  from locus_filter_loop_total [OF assms(1)]
  obtain record1 loc_info1 filtered1 where
    l: "locus_filter_loop drop_filtered locus_filters (record, loc_info, False)
          = Inr (record1, loc_info1, filtered1)"
    by (metis prod_cases3)
  from locus_filter_loop_frame [OF l]
  have fr: "record1 = record\<lparr>FILTER := FILTER record1\<rparr>" and dr: "drop_filtered \<longrightarrow> record1 = record"
    and k: "fst ` set loc_info1 = fst ` set loc_info" by auto
  from dict_add_total [of "''NO_CALLS_REMAINING''" loc_info1 1] assms(2) k
  obtain c where c: "map_of loc_info1 ''NO_CALLS_REMAINING'' = Some c"
    and d: "dict_add ''NO_CALLS_REMAINING'' 1 loc_info1
              = Inr (AList.update ''NO_CALLS_REMAINING'' (c + 1) loc_info1)" by auto
  have z: "\<not> list_ex id (GetCalledSamples record1)"
    using assms(3) by (subst fr) simp
  have "ApplyLocusFilters record locus_filters loc_info drop_filtered
             = Inr (if drop_filtered then record
                    else add_reason filtered1 ''NO_CALLS_REMAINING'' record1,
                    AList.update ''NO_CALLS_REMAINING'' (c + 1) loc_info1, True)"
    using l d z dr
    by (simp add: ApplyLocusFilters_def no_calls_check_def pass_check_def count_called_zero)
  with l c show ?thesis by blast
qed


theorem no_calls_remaining_unconditional_witness:
  "ApplyLocusFilters locus_uncalled [hwe_fires] (init_loc_info [''HWE'']) False =
     Inr (locus_uncalled\<lparr>FILTER := ''HWE;NO_CALLS_REMAINING''\<rparr>,
          [(''totalcalls'', 0), (''PASS'', 0), (''NO_CALLS_REMAINING'', 1), (''HWE'', 1)],
          True)"
proof -
  have h1: "\<forall>f \<in> set [hwe_fires]. filter_name f \<in> fst ` set (init_loc_info [''HWE''])"
    by (simp add: locus_eval)
  have h2: "''NO_CALLS_REMAINING'' \<in> fst ` set (init_loc_info [''HWE''])"
    by (simp add: locus_eval)
  have h3: "\<not> list_ex id (GetCalledSamples locus_uncalled)"
    by (simp add: locus_eval)
  have l: "locus_filter_loop False [hwe_fires] (locus_uncalled, init_loc_info [''HWE''], False)
             = Inr (locus_uncalled\<lparr>FILTER := ''HWE''\<rparr>,
                    [(''totalcalls'', 0), (''PASS'', 0), (''NO_CALLS_REMAINING'', 0), (''HWE'', 1)],
                    True)"
    by (simp add: locus_eval)
  from no_calls_remaining_unconditional [OF h1 h2 h3, of False] l
  show ?thesis by (auto simp: locus_eval)
qed

lemma ApplyLocusFilters_frame:
  assumes "ApplyLocusFilters r fs li d = Inr (r', li', b)"
  shows "r' = r\<lparr>FILTER := FILTER r'\<rparr> \<and> (d \<longrightarrow> r' = r)"
proof -
  from assms obtain r1 li1 f1 where
    l: "locus_filter_loop d fs (r, li, False) = Inr (r1, li1, f1)"
    by (auto simp: ApplyLocusFilters_def split: sum.splits)
  from locus_filter_loop_frame [OF l]
  have fr: "r1 = r\<lparr>FILTER := FILTER r1\<rparr>" and dr: "d \<longrightarrow> r1 = r" by auto
  let ?n = "int (length (filter id (GetCalledSamples r1)))"
  from assms l obtain r2 li2 f2 where
    n: "no_calls_check d ?n (r1, li1, f1) = Inr (r2, li2, f2)"
    and p: "pass_check d ?n (r2, li2, f2) = Inr (r', li', b)"
    by (auto simp: ApplyLocusFilters_def Let_def split: sum.splits)
  from n have n': "r2 = r1\<lparr>FILTER := FILTER r2\<rparr> \<and> (d \<longrightarrow> r2 = r1)"
    by (auto simp: no_calls_check_def add_reason_def split: if_splits sum.splits)
  from p have p': "r' = r2\<lparr>FILTER := FILTER r'\<rparr> \<and> (d \<longrightarrow> r' = r2)"
    by (auto simp: pass_check_def split: if_splits sum.splits)
  have "r' = r\<lparr>FILTER := FILTER r'\<rparr>"
    by (metis fr n' p' TRRecord.update_convs(5) TRRecord.surjective)
  with dr n' p' show ?thesis by auto
qed

text \<open>
  C9. With \<open>drop_filtered\<close> true, whenever ApplyLocusFilters returns, the record it
  leaves is the record it was given, FILTER column and every other field; only the table
  and the returned flag carry its effect.
\<close>

theorem drop_filtered_leaves_record:
  "ApplyLocusFilters record locus_filters loc_info True = Inr (record', loc_info', filtered)
   \<Longrightarrow> record' = record"
  using ApplyLocusFilters_frame [of "record" locus_filters loc_info True record' loc_info' filtered]
  by simp

theorem drop_filtered_leaves_record_witness:
  "ApplyLocusFilters locus_uncalled [hwe_fires] (init_loc_info [''HWE'']) True =
     Inr (locus_uncalled,
          [(''totalcalls'', 0), (''PASS'', 0), (''NO_CALLS_REMAINING'', 1), (''HWE'', 1)],
          True)"
proof -
  obtain r li b where
    a: "ApplyLocusFilters locus_uncalled [hwe_fires] (init_loc_info [''HWE'']) True = Inr (r, li, b)"
    and li: "li = [(''totalcalls'', 0), (''PASS'', 0), (''NO_CALLS_REMAINING'', 1), (''HWE'', 1)]"
    and b: "b = True"
    by (simp add: ApplyLocusFilters_def no_calls_check_def pass_check_def locus_eval)
  from drop_filtered_leaves_record [OF a] a li b show ?thesis by simp
qed

lemma locus_filter_loop_none_fire:
  "\<forall>x \<in> set fs. locus_call x r = None \<Longrightarrow>
   locus_filter_loop d fs (r, li, f) = Inr (r, li, f)"
  by (induction fs) auto

text \<open>
  C6 (as stated). The claim sets the FILTER column to \<open>PASS\<close> for every record that
  passes. With \<open>drop_filtered\<close> true the function returns the record as it was given,
  here with the FILTER column \<open>.\<close>, while the counters are updated.
\<close>

theorem locus_passes_FILTER_counterexample:
  "ApplyLocusFilters locus_called [] (init_loc_info []) True =
     Inr (locus_called,
          [(''totalcalls'', 3), (''PASS'', 1), (''NO_CALLS_REMAINING'', 0)], False)
   \<and> FILTER locus_called \<noteq> ''PASS''"
  by (simp add: ApplyLocusFilters_def no_calls_check_def pass_check_def locus_eval)

text \<open>
  C6 (amended). For every record where no configured locus filter fires and at least
  one sample is called: the \<open>PASS\<close> counter goes up by one, \<open>totalcalls\<close> goes up by
  the number of called samples, the function returns false, and the FILTER column is set
  to \<open>PASS\<close> when filtered loci are kept; when they are dropped the record is left as
  it was.
\<close>

theorem locus_passes:
  assumes "\<forall>f \<in> set locus_filters. locus_call f record = None"
    and "list_ex id (GetCalledSamples record)"
    and "map_of loc_info ''PASS'' = Some p"
    and "map_of loc_info ''totalcalls'' = Some t"
  shows "ApplyLocusFilters record locus_filters loc_info drop_filtered =
           Inr (if drop_filtered then record else record\<lparr>FILTER := ''PASS''\<rparr>,
                AList.update ''totalcalls''
                  (t + int (length (filter id (GetCalledSamples record))))
                  (AList.update ''PASS'' (p + 1) loc_info),
                False)"
proof -
  have n: "filter id (GetCalledSamples record) \<noteq> []"
    using assms(2) by (simp add: count_called_zero)
  have t: "map_of (AList.update ''PASS'' (p + 1) loc_info) ''totalcalls'' = Some t"
    using assms(4) by (simp add: AList.update_conv')
  show ?thesis
    using locus_filter_loop_none_fire [OF assms(1)] n assms(3) t
    by (simp add: ApplyLocusFilters_def no_calls_check_def pass_check_def dict_add_def)
qed

theorem locus_passes_witness:
  "ApplyLocusFilters locus_called [] (init_loc_info []) False =
     Inr (locus_called\<lparr>FILTER := ''PASS''\<rparr>,
          [(''totalcalls'', 3), (''PASS'', 1), (''NO_CALLS_REMAINING'', 0)], False)"
proof -
  have h1: "\<forall>f \<in> set []. locus_call f locus_called = None" by simp
  have h2: "list_ex id (GetCalledSamples locus_called)" by (simp add: locus_eval)
  have h3: "map_of (init_loc_info []) ''PASS'' = Some 0" by (simp add: locus_eval)
  have h4: "map_of (init_loc_info []) ''totalcalls'' = Some 0" by (simp add: locus_eval)
  from locus_passes [OF h1 h2 h3 h4, of False]
  show ?thesis by (simp add: locus_eval)
qed

section \<open>Properties of ApplyCallFilters\<close>

lemmas call_eval =
  ApplyCallFilters_def finish_call_filters_def add_filter_text_def fmt_g_whole_def
  locus_called_def locus_uncalled_def locus_no_depth_def single_sample_def
  locus_negative_dp_def fires_always_def min_depth_10_def init_sample_info_def
  GetCalledSamples_def GetNumSamples_def GetMaxPloidy_def np_empty_def setitem_def
  itemsize_def array_itemsize_def add_mask_def append_NOCALL_def mark_PASS_def
  depth_accounting_def negative_dp_def get_dp_vals_def format_getitem_def list_getitem_def
  mask_record_def locus_LC_only_def two_samples_def fires_after_first_def
  NOCALL_INT_FORMAT_VAL_def
  str_nat.simps Let_def

lemma update_is_map_entry:
  "map_of al k = Some c \<Longrightarrow> AList.update k (f c) al = AList.map_entry k f al"
  by (induction al) auto

lemma map_of_map_entry_None:
  "(map_of (AList.map_entry k f al) k' = None) = (map_of al k' = None)"
  by (simp add: map_of_eq_None_iff AList.dom_map_entry)

lemma count_step_keys:
  "(map_of (count_step r nc filt si) k = None) = (map_of si k = None)"
  by (simp add: count_step_def map_of_map_entry_None)

lemma fold_count_step_keys:
  "(map_of (fold (count_step r nc) fs si) k = None) = (map_of si k = None)"
  by (induction fs arbitrary: si) (simp_all add: count_step_keys)

lemma has_counters_count_step:
  "has_counters (count_step r nc filt si) fs = has_counters si fs"
  by (simp add: has_counters_def count_step_keys)

lemma list_all_id_map: "list_all id (map p xs) = list_all p xs"
  by (induction xs) auto

lemma call_filter_loop_fold:
  "has_counters si fs \<Longrightarrow>
   call_filter_loop fmt r nc fs (si, wt) =
     Inr (fold (count_step r nc) fs si, fold (text_step fmt r) fs wt)"
proof (induction fs arbitrary: si wt)
  case Nil
  then show ?case by simp
next
  case (Cons filt fs)
  from Cons.prems have k: "map_of si (name filt) \<noteq> None" and h: "has_counters si fs"
    by (simp_all add: has_counters_def)
  then obtain counts where c: "map_of si (name filt) = Some counts" by auto
  have h': "has_counters (count_step r nc filt si) fs"
    using h by (simp add: has_counters_count_step)
  show ?case
  proof (cases "list_all isnan (call filt r)")
    case True
    with Cons.IH [OF h, of wt] show ?thesis
      by (simp add: list_all_id_map count_step_def text_step_def)
  next
    case False
    have u: "AList.update (name filt)
               (add_mask counts (map2 (\<lambda>n c. \<not> n \<and> \<not> c) (map isnan (call filt r)) nc)) si
             = count_step r nc filt si"
      using False c update_is_map_entry [OF c] by (simp add: count_step_def)
    from Cons.IH [OF h', of "text_step fmt r filt wt"] False c u show ?thesis
      by (simp add: list_all_id_map text_step_def Let_def)
  qed
qed

lemma add_filter_text_length:
  "length out = length texts \<Longrightarrow>
   length (snd (add_filter_text fmt nm out (w, texts))) = length texts"
  by (simp add: add_filter_text_def Let_def)

lemma add_filter_text_width:
  "w \<le> fst (add_filter_text fmt nm out (w, texts))"
  by (simp add: add_filter_text_def Let_def)

lemma add_filter_text_nth:
  "length out = length texts \<Longrightarrow> i < length texts \<Longrightarrow>
   snd (add_filter_text fmt nm out (w, texts)) ! i =
     (if isnan (out ! i) then texts ! i
      else (if texts ! i = [] then [] else take w (texts ! i @ '','')) @
           nm @ ''_'' @ char_mod_g fmt (out ! i))"
  by (simp add: add_filter_text_def Let_def setitem_def)


lemma list_all_isnan_nth: "list_all isnan xs \<Longrightarrow> i < length xs \<Longrightarrow> isnan (xs ! i)"
  by (simp add: list_all_length)

lemma text_step_length:
  "length (call filt r) = length texts \<Longrightarrow>
   length (snd (text_step fmt r filt (w, texts))) = length texts"
  by (simp add: text_step_def add_filter_text_length)

lemma text_step_width: "w \<le> fst (text_step fmt r filt (w, texts))"
  by (simp add: text_step_def add_filter_text_width)

lemma text_step_empty:
  assumes "length (call filt r) = length texts" and "i < length texts" and "1 \<le> w"
  shows "(snd (text_step fmt r filt (w, texts)) ! i = []) =
           (texts ! i = [] \<and> isnan (call filt r ! i))"
proof (cases "list_all isnan (call filt r)")
  case True
  with assms list_all_isnan_nth [OF True, of i] show ?thesis
    by (simp add: text_step_def)
next
  case False
  with assms show ?thesis
    by (auto simp: text_step_def add_filter_text_nth)
qed

lemma text_step_underscore:
  assumes "length (call filt r) = length texts" and "i < length texts"
    and "texts ! i \<noteq> [] \<longrightarrow> CHR ''_'' \<in> set (texts ! i)"
    and "snd (text_step fmt r filt (w, texts)) ! i \<noteq> []"
  shows "CHR ''_'' \<in> set (snd (text_step fmt r filt (w, texts)) ! i)"
proof (cases "list_all isnan (call filt r)")
  case True
  with assms show ?thesis by (simp add: text_step_def)
next
  case False
  with assms show ?thesis
    by (auto simp: text_step_def add_filter_text_nth split: if_splits)
qed

lemma fold_text_step_props:
  assumes "\<forall>f \<in> set fs. length (call f r) = length texts" and "1 \<le> w"
  shows "length (snd (fold (text_step fmt r) fs (w, texts))) = length texts
       \<and> w \<le> fst (fold (text_step fmt r) fs (w, texts))
       \<and> (\<forall>i < length texts.
            ((snd (fold (text_step fmt r) fs (w, texts)) ! i = []) =
               (texts ! i = [] \<and> (\<forall>f \<in> set fs. isnan (call f r ! i))))
          \<and> ((texts ! i \<noteq> [] \<longrightarrow> CHR ''_'' \<in> set (texts ! i)) \<longrightarrow>
              snd (fold (text_step fmt r) fs (w, texts)) ! i \<noteq> [] \<longrightarrow>
              CHR ''_'' \<in> set (snd (fold (text_step fmt r) fs (w, texts)) ! i)))"
  using assms
proof (induction fs arbitrary: w texts)
  case Nil
  then show ?case by simp
next
  case (Cons filt fs)
  obtain w1 texts1 where s: "text_step fmt r filt (w, texts) = (w1, texts1)"
    by (cases "text_step fmt r filt (w, texts)")
  from Cons.prems have lf: "length (call filt r) = length texts" by simp
  have l1: "length texts1 = length texts"
    using text_step_length [OF lf, of fmt w] s by simp
  have w1: "w \<le> w1" using text_step_width [of w fmt r filt texts] s by simp
  have e1: "\<forall>i < length texts. (texts1 ! i = []) = (texts ! i = [] \<and> isnan (call filt r ! i))"
    using text_step_empty [OF lf _ Cons.prems(2), of _ fmt] s by simp
  have u1: "\<forall>i < length texts. (texts ! i \<noteq> [] \<longrightarrow> CHR ''_'' \<in> set (texts ! i)) \<longrightarrow>
              texts1 ! i \<noteq> [] \<longrightarrow> CHR ''_'' \<in> set (texts1 ! i)"
    using text_step_underscore [OF lf, of _ fmt w] s by simp
  have p1: "\<forall>f \<in> set fs. length (call f r) = length texts1"
    using Cons.prems(1) l1 by simp
  have p2: "1 \<le> w1" using Cons.prems(2) w1 by simp
  note ih = Cons.IH [OF p1 p2]
  have f: "fold (text_step fmt r) (filt # fs) (w, texts) = fold (text_step fmt r) fs (w1, texts1)"
    using s by simp
  show ?case
    unfolding f using ih l1 w1 e1 u1 by auto
qed

lemma final_text_length:
  "length texts = length nocalls \<Longrightarrow>
   length (mark_PASS (append_NOCALL nocalls (w, texts))) = length nocalls"
  by (simp add: mark_PASS_def append_NOCALL_def Let_def)

lemma not_list_ex_nth: "\<not> list_ex id bs \<Longrightarrow> i < length bs \<Longrightarrow> \<not> bs ! i"
  by (simp add: list_ex_iff) (metis nth_mem)

lemma final_text_nth:
  assumes "length texts = length nocalls" and "4 \<le> w" and "i < length nocalls"
  shows "mark_PASS (append_NOCALL nocalls (w, texts)) ! i =
           (if nocalls ! i then ''NOCALL'' else if texts ! i = [] then ''PASS'' else texts ! i)"
proof (cases "list_ex id nocalls")
  case True
  with assms show ?thesis
    by (simp add: mark_PASS_def append_NOCALL_def Let_def setitem_def)
next
  case False
  from not_list_ex_nth [OF False assms(3)] False assms show ?thesis
    by (simp add: mark_PASS_def append_NOCALL_def Let_def setitem_def)
qed

lemma length_GetCalledSamples [simp]: "length (GetCalledSamples r) = GetNumSamples r"
  by (simp add: GetCalledSamples_def GetNumSamples_def)

lemma final_text_props:
  assumes "filters_fit r fs"
  shows "length (final_text fmt r fs) = GetNumSamples r"
    and "i < GetNumSamples r \<Longrightarrow>
         final_text fmt r fs ! i =
           (if \<not> GetCalledSamples r ! i then ''NOCALL''
            else if \<forall>f \<in> set fs. isnan (call f r ! i) then ''PASS''
            else snd (fold (text_step fmt r) fs (4, np_empty (GetNumSamples r))) ! i)"
    and "i < GetNumSamples r \<Longrightarrow> GetCalledSamples r ! i \<Longrightarrow>
         \<not> (\<forall>f \<in> set fs. isnan (call f r ! i)) \<Longrightarrow>
         CHR ''_'' \<in> set (final_text fmt r fs ! i)"
proof -
  let ?n = "GetNumSamples r"
  let ?wt = "fold (text_step fmt r) fs (4, np_empty ?n)"
  have a: "\<forall>f \<in> set fs. length (call f r) = length (np_empty ?n)"
    using assms by (simp add: filters_fit_def list_all_iff np_empty_def)
  have b: "(1::nat) \<le> 4" by simp
  note p = fold_text_step_props [OF a b, of fmt]
  have l: "length (snd ?wt) = ?n" using p by (simp add: np_empty_def)
  have w: "4 \<le> fst ?wt" using p by simp
  have e: "\<And>i. i < ?n \<Longrightarrow> (snd ?wt ! i = []) = (\<forall>f \<in> set fs. isnan (call f r ! i))"
    using p by (simp add: np_empty_def)
  have u: "\<And>i. i < ?n \<Longrightarrow> snd ?wt ! i \<noteq> [] \<Longrightarrow> CHR ''_'' \<in> set (snd ?wt ! i)"
    using p by (simp add: np_empty_def)
  have ft: "final_text fmt r fs = mark_PASS (append_NOCALL (map Not (GetCalledSamples r)) (fst ?wt, snd ?wt))"
    by (simp add: final_text_def)
  have ln: "length (snd ?wt) = length (map Not (GetCalledSamples r))" using l by simp
  show "length (final_text fmt r fs) = ?n"
    unfolding ft using final_text_length [OF ln, of "fst ?wt"] by simp
  have nth: "\<And>i. i < ?n \<Longrightarrow> final_text fmt r fs ! i =
           (if \<not> GetCalledSamples r ! i then ''NOCALL''
            else if snd ?wt ! i = [] then ''PASS'' else snd ?wt ! i)"
    unfolding ft using final_text_nth [OF ln w] by simp
  show "i < ?n \<Longrightarrow> final_text fmt r fs ! i =
           (if \<not> GetCalledSamples r ! i then ''NOCALL''
            else if \<forall>f \<in> set fs. isnan (call f r ! i) then ''PASS''
            else snd ?wt ! i)"
    using nth [of i] e [of i] by simp
  show "i < ?n \<Longrightarrow> GetCalledSamples r ! i \<Longrightarrow>
         \<not> (\<forall>f \<in> set fs. isnan (call f r ! i)) \<Longrightarrow>
         CHR ''_'' \<in> set (final_text fmt r fs ! i)"
    using nth [of i] e [of i] u [of i] by simp
qed

lemma final_text_extant:
  assumes "filters_fit r fs"
  shows "map (\<lambda>t. t = ''PASS'') (final_text fmt r fs) = passes r fs"
proof (rule nth_equalityI)
  show "length (map (\<lambda>t. t = ''PASS'') (final_text fmt r fs)) = length (passes r fs)"
    using final_text_props(1) [OF assms] by (simp add: passes_def)
next
  fix i assume "i < length (map (\<lambda>t. t = ''PASS'') (final_text fmt r fs))"
  then have i: "i < GetNumSamples r" using final_text_props(1) [OF assms, of fmt] by simp
  have il: "i < length (final_text fmt r fs)" using i final_text_props(1) [OF assms, of fmt] by simp
  show "map (\<lambda>t. t = ''PASS'') (final_text fmt r fs) ! i = passes r fs ! i"
  proof (cases "GetCalledSamples r ! i \<and> \<not> (\<forall>f \<in> set fs. isnan (call f r ! i))")
    case True
    with final_text_props(3) [OF assms i, of fmt]
    have "CHR ''_'' \<in> set (final_text fmt r fs ! i)" by simp
    then have "final_text fmt r fs ! i \<noteq> ''PASS''" by auto
    with True i il show ?thesis by (simp add: passes_def list_all_iff)
  next
    case False
    with final_text_props(2) [OF assms i, of fmt] i il show ?thesis
      by (auto simp: passes_def list_all_iff)
  qed
qed

lemma final_text_filtered:
  assumes "filters_fit r fs"
  shows "map (\<lambda>t. t \<noteq> ''PASS'' \<and> t \<noteq> ''NOCALL'') (final_text fmt r fs) = filtered_by r fs"
proof (rule nth_equalityI)
  show "length (map (\<lambda>t. t \<noteq> ''PASS'' \<and> t \<noteq> ''NOCALL'') (final_text fmt r fs))
          = length (filtered_by r fs)"
    using final_text_props(1) [OF assms] by (simp add: filtered_by_def)
next
  fix i assume "i < length (map (\<lambda>t. t \<noteq> ''PASS'' \<and> t \<noteq> ''NOCALL'') (final_text fmt r fs))"
  then have i: "i < GetNumSamples r" using final_text_props(1) [OF assms, of fmt] by simp
  have il: "i < length (final_text fmt r fs)" using i final_text_props(1) [OF assms, of fmt] by simp
  show "map (\<lambda>t. t \<noteq> ''PASS'' \<and> t \<noteq> ''NOCALL'') (final_text fmt r fs) ! i = filtered_by r fs ! i"
  proof (cases "GetCalledSamples r ! i \<and> \<not> (\<forall>f \<in> set fs. isnan (call f r ! i))")
    case True
    with final_text_props(3) [OF assms i, of fmt]
    have "CHR ''_'' \<in> set (final_text fmt r fs ! i)" by simp
    then have "final_text fmt r fs ! i \<noteq> ''PASS'' \<and> final_text fmt r fs ! i \<noteq> ''NOCALL''" by auto
    with True i il show ?thesis by (auto simp: filtered_by_def list_ex_iff)
  next
    case False
    with final_text_props(2) [OF assms i, of fmt] i il show ?thesis
      by (auto simp: filtered_by_def list_ex_iff)
  qed
qed

lemma ApplyCallFilters_finish:
  "has_counters si fs \<Longrightarrow>
   ApplyCallFilters fmt r fs si names =
     finish_call_filters r names
       (fold (count_step r (map Not (GetCalledSamples r))) fs si) (final_text fmt r fs)"
  by (simp add: ApplyCallFilters_def call_filter_loop_fold final_text_def Let_def)

subsection \<open>The trigger text while the commas fit\<close>

text \<open>
  The width of the text array grows by the width of each filter's text and starts at 4,
  so the commas of up to five entries fit: for a called sample on which one to five
  filters fire, the final text is the list of their entries joined by commas.
\<close>

lemma join_snoc:
  "join sep (es @ [e]) = (if es = [] then e else join sep es @ sep @ e)"
  by (induction sep es rule: join.induct) auto

lemma join_nonempty: "es \<noteq> [] \<Longrightarrow> (\<forall>e \<in> set es. e \<noteq> []) \<Longrightarrow> join sep es \<noteq> []"
  by (induction sep es rule: join.induct) auto

lemma array_itemsize_ge: "s \<in> set xs \<Longrightarrow> length s \<le> array_itemsize xs"
  by (induction xs) (auto simp: array_itemsize_def)

lemma entry_width:
  assumes "i < length out"
  shows "length (nm @ ''_'' @ char_mod_g fmt (out ! i))
           \<le> itemsize nm + (1 + array_itemsize (map (char_mod_g fmt) out))"
proof -
  have "char_mod_g fmt (out ! i) \<in> set (map (char_mod_g fmt) out)"
    using assms by simp
  from array_itemsize_ge [OF this] show ?thesis
    by (simp add: itemsize_def)
qed

lemma fold_text_step_join:
  assumes "\<forall>f \<in> set fs. length (call f r) = length texts" and "i < length texts"
    and "texts ! i = join '','' es" and "\<forall>e \<in> set es. e \<noteq> []"
    and "length (texts ! i) + 4 \<le> w + (length es - 1)"
    and "length es + length (entries fmt r fs i) \<le> 5"
  shows "snd (fold (text_step fmt r) fs (w, texts)) ! i = join '','' (es @ entries fmt r fs i)"
  using assms
proof (induction fs arbitrary: w texts es)
  case Nil
  then show ?case by (simp add: entries_def)
next
  case (Cons filt fs)
  obtain w1 texts1 where s: "text_step fmt r filt (w, texts) = (w1, texts1)"
    by (cases "text_step fmt r filt (w, texts)")
  from Cons.prems(1) have lf: "length (call filt r) = length texts" by simp
  have l1: "length texts1 = length texts"
    using text_step_length [OF lf, of fmt w] s by simp
  have p1: "\<forall>f \<in> set fs. length (call f r) = length texts1"
    using Cons.prems(1) l1 by simp
  have i1: "i < length texts1" using Cons.prems(2) l1 by simp
  have f: "fold (text_step fmt r) (filt # fs) (w, texts) = fold (text_step fmt r) fs (w1, texts1)"
    using s by simp
  show ?case
  proof (cases "isnan (call filt r ! i)")
    case True
    have t1: "texts1 ! i = texts ! i"
    proof (cases "list_all isnan (call filt r)")
      case True
      with s show ?thesis by (simp add: text_step_def)
    next
      case False
      with s add_filter_text_nth [OF lf Cons.prems(2), of fmt "name filt" w] True show ?thesis
        by (simp add: text_step_def)
    qed
    have w1: "w \<le> w1" using text_step_width [of w fmt r filt texts] s by simp
    have e: "entries fmt r (filt # fs) i = entries fmt r fs i"
      using True by (simp add: entries_def)
    have a: "texts1 ! i = join '','' es" using t1 Cons.prems(3) by simp
    have b: "length (texts1 ! i) + 4 \<le> w1 + (length es - 1)" using t1 w1 Cons.prems(5) by simp
    have c: "length es + length (entries fmt r fs i) \<le> 5" using Cons.prems(6) e by simp
    from Cons.IH [OF p1 i1 a Cons.prems(4) b c] show ?thesis
      unfolding f e .
  next
    case False
    let ?e = "name filt @ ''_'' @ char_mod_g fmt (call filt r ! i)"
    let ?wt = "itemsize (name filt) + (1 + array_itemsize (map (char_mod_g fmt) (call filt r)))"
    have na: "\<not> list_all isnan (call filt r)"
      using False list_all_isnan_nth [of "call filt r" i] lf Cons.prems(2) by auto
    have e: "entries fmt r (filt # fs) i = ?e # entries fmt r fs i"
      using False by (simp add: entries_def)
    have k: "length es \<le> 4" using Cons.prems(6) e by simp
    have fits: "texts ! i \<noteq> [] \<Longrightarrow> length (texts ! i @ '','') \<le> w"
    proof -
      assume "texts ! i \<noteq> []"
      with Cons.prems(3) have "es \<noteq> []" by auto
      then have "1 \<le> length es" by (cases es) auto
      with Cons.prems(5) k show ?thesis by simp
    qed
    have tk: "texts ! i \<noteq> [] \<Longrightarrow> take w (texts ! i @ '','') = texts ! i @ '',''"
      using fits by (intro take_all) simp
    have raw: "texts1 ! i = (if texts ! i = [] then [] else take w (texts ! i @ '','')) @ ?e"
      using s add_filter_text_nth [OF lf Cons.prems(2), of fmt "name filt" w] False na
      by (simp add: text_step_def)
    have t1: "texts1 ! i = (if texts ! i = [] then [] else texts ! i @ '','') @ ?e"
    proof (cases "texts ! i = []")
      case True
      with raw show ?thesis by simp
    next
      case False
      with raw tk [OF False] show ?thesis by (simp only: if_False)
    qed
    have w1: "w1 = w + ?wt"
      using s na by (simp add: text_step_def add_filter_text_def Let_def)
    have ew: "length ?e \<le> ?wt"
      using entry_width [of i "call filt r" "name filt" fmt] lf Cons.prems(2) by simp
    have emp: "(texts ! i = []) = (es = [])"
      using Cons.prems(3,4) join_nonempty [of es "'',''"] by (cases es) auto
    have a: "texts1 ! i = join '','' (es @ [?e])"
      using t1 Cons.prems(3) emp by (simp add: join_snoc)
    have b4: "\<forall>x \<in> set (es @ [?e]). x \<noteq> []" using Cons.prems(4) by simp
    have b: "length (texts1 ! i) + 4 \<le> w1 + (length (es @ [?e]) - 1)"
    proof (cases "es = []")
      case True
      with t1 w1 ew emp Cons.prems(5) show ?thesis by simp
    next
      case False
      then have "1 \<le> length es" by (cases es) auto
      with t1 w1 ew emp False Cons.prems(5) show ?thesis by simp
    qed
    have c: "length (es @ [?e]) + length (entries fmt r fs i) \<le> 5"
      using Cons.prems(6) e by simp
    from Cons.IH [OF p1 i1 a b4 b c] show ?thesis
      unfolding f e by simp
  qed
qed

lemma final_text_up_to_five:
  assumes "filters_fit r fs" and "i < GetNumSamples r" and "GetCalledSamples r ! i"
    and "entries fmt r fs i \<noteq> []" and "length (entries fmt r fs i) \<le> 5"
  shows "final_text fmt r fs ! i = join '','' (entries fmt r fs i)"
proof -
  let ?n = "GetNumSamples r"
  have a: "\<forall>f \<in> set fs. length (call f r) = length (np_empty ?n)"
    using assms(1) by (simp add: filters_fit_def list_all_iff np_empty_def)
  have i: "i < length (np_empty ?n)" using assms(2) by (simp add: np_empty_def)
  have t: "np_empty ?n ! i = join '','' []" using assms(2) by (simp add: np_empty_def)
  have j: "snd (fold (text_step fmt r) fs (4, np_empty ?n)) ! i = join '','' (entries fmt r fs i)"
    using fold_text_step_join [OF a i t, of 4 fmt] assms(2,5) by (simp add: np_empty_def)
  have fire: "\<not> (\<forall>f \<in> set fs. isnan (call f r ! i))"
    using assms(4) by (auto simp: entries_def filter_empty_conv)
  from final_text_props(2) [OF assms(1,2), of fmt] assms(3) fire j show ?thesis by simp
qed

subsection \<open>Depth integrity\<close>

lemma format_getitem_FILTER:
  "field \<noteq> ''FILTER'' \<Longrightarrow>
   format_getitem (r\<lparr>format := AList.update ''FILTER'' v (format r)\<rparr>) field
     = format_getitem r field"
  by (simp add: format_getitem_def AList.update_conv')

lemma get_dp_vals_FILTER:
  "get_dp_vals (r\<lparr>format := AList.update ''FILTER'' v (format r)\<rparr>) = get_dp_vals r"
  by (simp add: get_dp_vals_def format_getitem_FILTER split: sum.splits error.splits)

lemma list_ex_map2:
  "length xs = length ys \<Longrightarrow>
   list_ex id (map2 g xs ys) = (\<exists>i < length xs. g (xs ! i) (ys ! i))"
  by (auto simp: list_ex_iff set_zip)

lemma map2_nth:
  "length xs = n \<Longrightarrow> length ys = n \<Longrightarrow>
   map2 g xs ys = map (\<lambda>i. g (xs ! i) (ys ! i)) [0..<n]"
  by (rule nth_equalityI) simp_all

lemma mask_format_error:
  "mask_format fs al = Inl e \<Longrightarrow> \<exists>field. e = ValueError_unexpected_dtype field"
proof (induction al arbitrary: e)
  case Nil
  then show ?case by simp
next
  case (Cons p al)
  obtain field vals where p: "p = (field, vals)" by (cases p)
  from Cons.prems show ?case
    unfolding p using Cons.IH
    by (cases vals) (auto split: if_splits sum.splits)
qed

lemma mask_record_error:
  "mask_record fs r = Inl e \<Longrightarrow> \<exists>field. e = ValueError_unexpected_dtype field"
  by (auto simp: mask_record_def Let_def split: sum.splits dest: mask_format_error)

lemma length_passes [simp]: "length (passes r fs) = GetNumSamples r"
  by (simp add: passes_def)

text \<open>
  When the filters give one value per sample, the table has the counters of the filters
  and \<open>numcalls\<close>, and the depth lookup gives one number per sample: the call ends in
  the TypeError of the subscript exactly when some sample whose final text is \<open>PASS\<close>
  has a depth below zero that is not the missing value, and it never ends in the
  ValueError that names the locus and the samples.
\<close>

lemma negative_depth_ends_in_TypeError:
  assumes "filters_fit r call_filters" and "has_counters sample_info call_filters"
    and "map_of sample_info ''numcalls'' \<noteq> None"
    and "get_dp_vals r = Inr (Some vals)" and "depth_numbers vals = Inr dp_vals"
    and "length dp_vals = GetNumSamples r"
  shows "(ApplyCallFilters fmt_g r call_filters sample_info sample_names
            = Inl TypeError_list_indices) =
         (\<exists>i < GetNumSamples r.
              final_text fmt_g r call_filters ! i = ''PASS'' \<and> pf_lt (dp_vals ! i) 0
              \<and> dp_vals ! i \<noteq> Flt (real_of_int NOCALL_INT_FORMAT_VAL))"
    and "\<forall>c p ns. ApplyCallFilters fmt_g r call_filters sample_info sample_names
                      \<noteq> Inl (ValueError_negative_DP c p ns)"
proof -
  let ?n = "GetNumSamples r"
  let ?txt = "final_text fmt_g r call_filters"
  let ?si1 = "fold (count_step r (map Not (GetCalledSamples r))) call_filters sample_info"
  let ?r1 = "r\<lparr>format := AList.update ''FILTER'' (StrVals ?txt) (format r)\<rparr>"
  let ?extant = "map (\<lambda>t. t = ''PASS'') ?txt"
  let ?neg = "map2 negative_dp dp_vals ?extant"
  have acf: "ApplyCallFilters fmt_g r call_filters sample_info sample_names =
               finish_call_filters r sample_names ?si1 ?txt"
    by (rule ApplyCallFilters_finish [OF assms(2)])
  have lt: "length ?txt = ?n" by (rule final_text_props(1) [OF assms(1)])
  obtain numcalls where nc: "map_of ?si1 ''numcalls'' = Some numcalls"
    using assms(3)
      fold_count_step_keys [of r "map Not (GetCalledSamples r)" call_filters sample_info
        "''numcalls''"]
    by auto
  have le: "length dp_vals = length ?extant" using assms(6) lt by simp
  have ex: "list_ex id ?neg =
              (\<exists>i < ?n. ?txt ! i = ''PASS'' \<and> pf_lt (dp_vals ! i) 0
                 \<and> dp_vals ! i \<noteq> Flt (real_of_int NOCALL_INT_FORMAT_VAL))"
    using list_ex_map2 [OF le, of negative_dp] assms(6) lt by (auto simp: negative_dp_def)
  let ?si2 = "AList.update ''numcalls'' (add_mask numcalls ?extant) ?si1"
  have fin: "finish_call_filters r sample_names ?si1 ?txt = Inl e \<Longrightarrow>
             depth_accounting ?r1 sample_names ?extant ?si2 = Inl e
             \<or> (\<exists>field. e = ValueError_unexpected_dtype field)" for e
  proof -
    assume a: "finish_call_filters r sample_names ?si1 ?txt = Inl e"
    show ?thesis
    proof (cases "depth_accounting ?r1 sample_names ?extant ?si2")
      case (Inl e')
      with a nc show ?thesis by (simp add: finish_call_filters_def Let_def)
    next
      case (Inr si3)
      with a nc obtain fsam where "mask_record fsam ?r1 = Inl e"
        by (auto simp: finish_call_filters_def Let_def split: if_splits sum.splits)
      from mask_record_error [OF this] show ?thesis by simp
    qed
  qed
  have dep: "list_ex id ?neg \<Longrightarrow>
             depth_accounting ?r1 sample_names ?extant ?si2 = Inl TypeError_list_indices"
    using assms(4,5)
    by (simp add: depth_accounting_def get_dp_vals_FILTER list_getitem_def Let_def)
  show "(ApplyCallFilters fmt_g r call_filters sample_info sample_names
            = Inl TypeError_list_indices) =
         (\<exists>i < ?n. ?txt ! i = ''PASS'' \<and> pf_lt (dp_vals ! i) 0
              \<and> dp_vals ! i \<noteq> Flt (real_of_int NOCALL_INT_FORMAT_VAL))"
  proof (cases "list_ex id ?neg")
    case True
    from dep [OF True]
    have "finish_call_filters r sample_names ?si1 ?txt = Inl TypeError_list_indices"
      using nc by (simp add: finish_call_filters_def Let_def)
    with acf True ex show ?thesis by simp
  next
    case False
    have d: "depth_accounting ?r1 sample_names ?extant ?si2 \<noteq> Inl TypeError_list_indices"
      using False assms(4,5)
      by (simp add: depth_accounting_def get_dp_vals_FILTER Let_def split: option.splits)
    have "finish_call_filters r sample_names ?si1 ?txt \<noteq> Inl TypeError_list_indices"
      using fin [of TypeError_list_indices] d by auto
    with acf False ex show ?thesis by simp
  qed
  have d2: "\<forall>c p ns. depth_accounting ?r1 sample_names ?extant ?si2
                        \<noteq> Inl (ValueError_negative_DP c p ns)"
    using assms(4,5)
    by (simp add: depth_accounting_def get_dp_vals_FILTER list_getitem_def Let_def
          split: option.splits)
  show "\<forall>c p ns. ApplyCallFilters fmt_g r call_filters sample_info sample_names
                      \<noteq> Inl (ValueError_negative_DP c p ns)"
    unfolding acf using fin d2 by fastforce
qed

subsection \<open>The order of the call filters\<close>

lemma map_entry_commute:
  "k \<noteq> k' \<Longrightarrow>
   AList.map_entry k f (AList.map_entry k' g al) = AList.map_entry k' g (AList.map_entry k f al)"
  by (induction al) auto

lemma map_entry_twice:
  "AList.map_entry k f (AList.map_entry k g al) = AList.map_entry k (\<lambda>c. f (g c)) al"
  by (induction al) auto

lemma add_mask_commute:
  "add_mask (add_mask c m1) m2 = add_mask (add_mask c m2) m1"
proof (induction c arbitrary: m1 m2)
  case Nil
  then show ?case by (simp add: add_mask_def)
next
  case (Cons x c)
  show ?case
  proof (cases m1)
    case Nil
    then show ?thesis by (simp add: add_mask_def)
  next
    case m1: (Cons b1 m1')
    show ?thesis
    proof (cases m2)
      case Nil
      then show ?thesis by (simp add: add_mask_def)
    next
      case m2: (Cons b2 m2')
      from Cons.IH [of m1' m2'] show ?thesis
        unfolding m1 m2 by (simp add: add_mask_def)
    qed
  qed
qed

lemma count_step_commute:
  "count_step r nc f (count_step r nc g si) = count_step r nc g (count_step r nc f si)"
proof (cases "name f = name g")
  case True
  then show ?thesis
    by (simp add: count_step_def map_entry_twice add_mask_commute)
next
  case False
  then show ?thesis
    by (simp add: count_step_def map_entry_commute)
qed

lemma fold_count_step_perm:
  assumes "mset fs = mset fs'"
  shows "fold (count_step r nc) fs = fold (count_step r nc) fs'"
proof (rule fold_multiset_equiv)
  fix x y
  show "count_step r nc x \<circ> count_step r nc y = count_step r nc y \<circ> count_step r nc x"
    by (rule ext) (simp add: count_step_commute)
next
  show "mset fs = mset fs'" by (rule assms)
qed

lemma passes_set: "set fs = set fs' \<Longrightarrow> passes r fs = passes r fs'"
  by (simp add: passes_def list_all_iff)

lemma filtered_by_set: "set fs = set fs' \<Longrightarrow> filtered_by r fs = filtered_by r fs'"
  by (simp add: filtered_by_def list_ex_iff)

lemma filters_fit_set: "set fs = set fs' \<Longrightarrow> filters_fit r fs = filters_fit r fs'"
  by (simp add: filters_fit_def list_all_iff)

lemma has_counters_set: "set fs = set fs' \<Longrightarrow> has_counters si fs = has_counters si fs'"
  by (simp add: has_counters_def list_all_iff)

lemma mask_format_update_FILTER:
  "mask_format fs (AList.update ''FILTER'' v al) =
     map_sum id (AList.update ''FILTER'' v) (mask_format fs al)"
proof (induction al)
  case Nil
  then show ?case by simp
next
  case (Cons p al)
  obtain field vals where p: "p = (field, vals)" by (cases p)
  show ?case
  proof (cases "field = ''FILTER''")
    case True
    then show ?thesis unfolding p by (simp split: sum.splits)
  next
    case False
    with Cons.IH show ?thesis unfolding p
      by (cases "mask_format fs al"; cases "mask_vals fs field vals") (simp_all split: sum.splits)
  qed
qed

lemma depth_accounting_FILTER:
  "depth_accounting (r\<lparr>format := AList.update ''FILTER'' v (format r)\<rparr>) names extant si
     = depth_accounting r names extant si"
  by (simp add: depth_accounting_def get_dp_vals_FILTER Let_def split: sum.splits option.splits)

lemma call_status_cong:
  assumes "map (\<lambda>t. t = ''PASS'') ts = map (\<lambda>t. t = ''PASS'') ts'"
    and "map (\<lambda>t. t \<noteq> ''PASS'' \<and> t \<noteq> ''NOCALL'') ts
           = map (\<lambda>t. t \<noteq> ''PASS'' \<and> t \<noteq> ''NOCALL'') ts'"
  shows "map call_status ts = map call_status ts'"
proof (rule nth_equalityI)
  from assms(1) have "length (map (\<lambda>t. t = ''PASS'') ts) = length (map (\<lambda>t. t = ''PASS'') ts')"
    by simp
  then show l: "length (map call_status ts) = length (map call_status ts')" by simp
  fix i assume "i < length (map call_status ts)"
  then have i: "i < length ts" and i': "i < length ts'" using l by simp_all
  from assms(1) have "map (\<lambda>t. t = ''PASS'') ts ! i = map (\<lambda>t. t = ''PASS'') ts' ! i" by simp
  with i i' have a: "(ts ! i = ''PASS'') = (ts' ! i = ''PASS'')" by simp
  from assms(2) have "map (\<lambda>t. t \<noteq> ''PASS'' \<and> t \<noteq> ''NOCALL'') ts ! i
                        = map (\<lambda>t. t \<noteq> ''PASS'' \<and> t \<noteq> ''NOCALL'') ts' ! i" by simp
  with i i' have b: "(ts ! i \<noteq> ''PASS'' \<and> ts ! i \<noteq> ''NOCALL'')
                       = (ts' ! i \<noteq> ''PASS'' \<and> ts' ! i \<noteq> ''NOCALL'')" by simp
  from a b have "call_status (ts ! i) = call_status (ts' ! i)"
    unfolding call_status_def by metis
  with i i' show "map call_status ts ! i = map call_status ts' ! i" by simp
qed

lemma outcome_written:
  "outcome (r\<lparr>format := AList.update ''FILTER'' (StrVals ts) al\<rparr>, si) =
     (r\<lparr>format := AList.delete ''FILTER'' al\<rparr>, map call_status ts, si)"
  by (simp add: outcome_def trigger_text_def AList.update_conv' AList.delete_update_same)

lemma finish_call_filters_outcome:
  "map_sum id outcome (finish_call_filters r names si ts) =
     (case map_of si ''numcalls'' of
        None \<Rightarrow> Inl (KeyError ''numcalls'')
      | Some numcalls \<Rightarrow>
          (case depth_accounting r names (map (\<lambda>t. t = ''PASS'') ts)
                  (AList.update ''numcalls''
                     (add_mask numcalls (map (\<lambda>t. t = ''PASS'') ts)) si) of
             Inl e \<Rightarrow> Inl e
           | Inr si' \<Rightarrow>
               (let fsam = map (\<lambda>t. t \<noteq> ''PASS'' \<and> t \<noteq> ''NOCALL'') ts
                in if \<not> list_ex id fsam
                   then Inr (r\<lparr>format := AList.delete ''FILTER'' (format r)\<rparr>,
                             map call_status ts, si')
                   else
                     (case mask_format fsam (format r) of
                        Inl e \<Rightarrow> Inl e
                      | Inr al \<Rightarrow>
                          Inr (r\<lparr>genotypes :=
                                   map2 (\<lambda>f gt. if f then (replicate (GetMaxPloidy r) (-1), False)
                                                  else gt) fsam (genotypes r),
                                 format := AList.delete ''FILTER'' al\<rparr>,
                               map call_status ts, si')))))"
proof (cases "map_of si ''numcalls''")
  case None
  then show ?thesis by (simp add: finish_call_filters_def Let_def)
next
  case (Some numcalls)
  let ?ex = "map (\<lambda>t. t = ''PASS'') ts"
  let ?si2 = "AList.update ''numcalls'' (add_mask numcalls ?ex) si"
  let ?fsam = "map (\<lambda>t. t \<noteq> ''PASS'' \<and> t \<noteq> ''NOCALL'') ts"
  let ?r1 = "r\<lparr>format := AList.update ''FILTER'' (StrVals ts) (format r)\<rparr>"
  show ?thesis
  proof (cases "depth_accounting r names ?ex ?si2")
    case (Inl e)
    with Some show ?thesis
      by (simp add: finish_call_filters_def Let_def depth_accounting_FILTER)
  next
    case (Inr si')
    show ?thesis
    proof (cases "list_ex id ?fsam")
      case False
      with Some Inr outcome_written [where r = r and ts = ts and al = "format r" and si = si'] show ?thesis
        by (simp add: finish_call_filters_def Let_def depth_accounting_FILTER)
    next
      case True
      have mp: "GetMaxPloidy ?r1 = GetMaxPloidy r" by (simp add: GetMaxPloidy_def)
      show ?thesis
      proof (cases "mask_format ?fsam (format r)")
        case e: (Inl e)
        with Some Inr True show ?thesis
          by (simp add: finish_call_filters_def Let_def depth_accounting_FILTER
                mask_record_def mask_format_update_FILTER)
      next
        case al: (Inr al)
        let ?r2 = "r\<lparr>genotypes :=
                       map2 (\<lambda>f gt. if f then (replicate (GetMaxPloidy r) (-1), False) else gt)
                         ?fsam (genotypes r)\<rparr>"
        have "finish_call_filters r names si ts =
                Inr (?r2\<lparr>format := AList.update ''FILTER'' (StrVals ts) al\<rparr>, si')"
          using Some Inr True al mp
          by (simp add: finish_call_filters_def Let_def depth_accounting_FILTER
                mask_record_def mask_format_update_FILTER)
        with outcome_written [where r = ?r2 and ts = ts and al = al and si = si'] Some Inr True al show ?thesis
          by (simp add: Let_def)
      qed
    qed
  qed
qed

lemma finish_call_filters_cong:
  assumes "map (\<lambda>t. t = ''PASS'') ts = map (\<lambda>t. t = ''PASS'') ts'"
    and "map (\<lambda>t. t \<noteq> ''PASS'' \<and> t \<noteq> ''NOCALL'') ts
           = map (\<lambda>t. t \<noteq> ''PASS'' \<and> t \<noteq> ''NOCALL'') ts'"
  shows "map_sum id outcome (finish_call_filters r names si ts) =
         map_sum id outcome (finish_call_filters r names si ts')"
  unfolding finish_call_filters_outcome assms call_status_cong [OF assms]
  by (rule refl)

text \<open>
  When the filters give one value per sample and the table has a counter for every
  filter, a reordering of the call filter list leaves the end of the call the same up to
  the wording of the trigger text: the same error, or the same table (filter counters,
  \<open>numcalls\<close>, \<open>totaldp\<close>), the same status for every sample (\<open>PASS\<close>, \<open>NOCALL\<close>
  or filtered) and the same record apart from the FORMAT field \<open>FILTER\<close>.
\<close>

lemma call_filter_order_outcome:
  assumes "mset call_filters = mset call_filters'"
    and "filters_fit r call_filters" and "has_counters sample_info call_filters"
  shows "map_sum id outcome (ApplyCallFilters fmt_g r call_filters sample_info sample_names) =
         map_sum id outcome (ApplyCallFilters fmt_g r call_filters' sample_info sample_names)"
proof -
  from assms(1) have s: "set call_filters = set call_filters'" by (rule mset_eq_setD)
  have f': "filters_fit r call_filters'" using assms(2) filters_fit_set [OF s] by simp
  have h': "has_counters sample_info call_filters'" using assms(3) has_counters_set [OF s] by simp
  let ?nc = "map Not (GetCalledSamples r)"
  have c: "fold (count_step r ?nc) call_filters sample_info
             = fold (count_step r ?nc) call_filters' sample_info"
    using fold_count_step_perm [OF assms(1)] by simp
  have e: "map (\<lambda>t. t = ''PASS'') (final_text fmt_g r call_filters)
             = map (\<lambda>t. t = ''PASS'') (final_text fmt_g r call_filters')"
    using final_text_extant [OF assms(2)] final_text_extant [OF f'] passes_set [OF s] by simp
  have f: "map (\<lambda>t. t \<noteq> ''PASS'' \<and> t \<noteq> ''NOCALL'') (final_text fmt_g r call_filters)
             = map (\<lambda>t. t \<noteq> ''PASS'' \<and> t \<noteq> ''NOCALL'') (final_text fmt_g r call_filters')"
    using final_text_filtered [OF assms(2)] final_text_filtered [OF f'] filtered_by_set [OF s]
    by simp
  show ?thesis
    unfolding ApplyCallFilters_finish [OF assms(3)] ApplyCallFilters_finish [OF h'] c
    by (rule finish_call_filters_cong [OF e f])
qed

subsection \<open>ApplyCallFilters on the example inputs\<close>

text \<open>
  The scenario of the spec: depths 5, 15 and 10 under a minimum depth of 10. The first
  sample is filtered with the text \<open>MinDepth_5\<close> and masked, the other two pass, the
  filter's counter goes up for the first sample, and the passing depths are accumulated.
\<close>

lemma scenario_min_depth:
  "ApplyCallFilters fmt_g_whole locus_called [min_depth_10]
     (init_sample_info 3 [''MinDepth'']) [''s1'', ''s2'', ''s3'']
   = Inr (locus_called
            \<lparr>genotypes := [([-1, -1], False), ([1, 1], False), ([0, 0], False)],
             format := [(''DP'', IntVals [-2147483648, 15, 10]),
                        (''FILTER'', StrVals [''MinDepth_5'', ''PASS'', ''PASS''])]\<rparr>,
          [(''numcalls'', [Flt 0, Flt 1, Flt 1]), (''totaldp'', [Flt 0, Flt 15, Flt 10]),
           (''MinDepth'', [Flt 1, Flt 0, Flt 0])])"
  by (simp add: call_eval numeral_3_eq_3)

lemma uncalled_eval:
  "ApplyCallFilters fmt_g_whole locus_uncalled [min_depth_10]
     (init_sample_info 3 [''MinDepth'']) [''s1'', ''s2'', ''s3'']
   = Inr (locus_uncalled
            \<lparr>format := [(''DP'', IntVals [-2147483648, -2147483648, -2147483648]),
                        (''FILTER'', StrVals [''NOCALL'', ''NOCALL'', ''NOCALL''])]\<rparr>,
          [(''numcalls'', [Flt 0, Flt 0, Flt 0]), (''totaldp'', [Flt 0, Flt 0, Flt 0]),
           (''MinDepth'', [Flt 0, Flt 0, Flt 0])])"
  by (simp add: call_eval numeral_3_eq_3)

text \<open>
  C1 (code at the failing input). One called sample on which six call filters fire, each
  with the value 5. After five filters the text \<open>A_5,B_5,C_5,D_5,E_5\<close> fills the whole
  width of the array (4 + 5 * 3 = 19), so the comma stored in place for the sixth filter
  is cut off, and the final text is not a comma-separated list of \<open>name_value\<close>
  entries: \<open>E_5\<close> and \<open>F_5\<close> run together.
\<close>

theorem six_filters_lose_a_comma:
  "ApplyCallFilters fmt_g_whole single_sample
     (map fires_always [''A'', ''B'', ''C'', ''D'', ''E'', ''F''])
     (init_sample_info 1 [''A'', ''B'', ''C'', ''D'', ''E'', ''F'']) [''s1'']
   = Inr (single_sample
            \<lparr>genotypes := [([-1, -1], False)],
             format := [(''DP'', IntVals [-2147483648]),
                        (''FILTER'', StrVals [''A_5,B_5,C_5,D_5,E_5F_5''])]\<rparr>,
          [(''numcalls'', [Flt 0]), (''totaldp'', [Flt 0]), (''A'', [Flt 1]),
           (''B'', [Flt 1]), (''C'', [Flt 1]), (''D'', [Flt 1]), (''E'', [Flt 1]),
           (''F'', [Flt 1])])"
  by (simp add: call_eval)

text \<open>
  C2 (code at the failing input). Three called samples, no call filter, and the depth
  \<open>-3\<close> on the second sample, which passes. The call ends in the TypeError of the
  subscript \<open>sample_names[negative_dp_called_samples]\<close>, not in the ValueError whose
  message names the chromosome, the position and the samples.
\<close>

theorem negative_depth_raises_TypeError:
  "ApplyCallFilters fmt_g_whole locus_negative_dp [] (init_sample_info 3 [])
     [''s1'', ''s2'', ''s3'']
   = Inl TypeError_list_indices"
  by (simp add: call_eval numeral_3_eq_3)

text \<open>
  C7 (code at the failing input). Two called samples and seven call filters: \<open>A\<close> to
  \<open>F\<close> fire on both samples, \<open>G\<close> fires on the second sample only. With \<open>G\<close> first
  its text widens the array before the other six are added, and every comma fits. With
  \<open>G\<close> last the comma before \<open>F_5\<close> is cut off on both samples, and the comma before
  \<open>G_5\<close> on the second. The two texts of the first sample name the same filters in the
  same order and differ in a comma.
\<close>

theorem reordering_changes_the_commas:
  "map_sum id (\<lambda>res. trigger_text (fst res))
     (ApplyCallFilters fmt_g_whole two_samples
        (fires_after_first ''G'' # map fires_always [''A'', ''B'', ''C'', ''D'', ''E'', ''F''])
        (init_sample_info 2 [''A'', ''B'', ''C'', ''D'', ''E'', ''F'', ''G''])
        [''s1'', ''s2''])
   = Inr [''A_5,B_5,C_5,D_5,E_5,F_5'', ''G_5,A_5,B_5,C_5,D_5,E_5,F_5'']
   \<and> map_sum id (\<lambda>res. trigger_text (fst res))
     (ApplyCallFilters fmt_g_whole two_samples
        (map fires_always [''A'', ''B'', ''C'', ''D'', ''E'', ''F''] @ [fires_after_first ''G''])
        (init_sample_info 2 [''A'', ''B'', ''C'', ''D'', ''E'', ''F'', ''G''])
        [''s1'', ''s2''])
   = Inr [''A_5,B_5,C_5,D_5,E_5F_5'', ''A_5,B_5,C_5,D_5,E_5F_5G_5'']"
  by (simp add: call_eval trigger_text_def numeral_2_eq_2)

text \<open>
  A locus that carries only \<open>LC\<close> while the header also declares \<open>DP\<close>: the lookup
  of \<open>DP\<close> gives \<open>None\<close>, \<open>LC\<close> is not read, and every depth total becomes nan.
\<close>

lemma declared_DP_absent:
  "map_sum id snd
     (ApplyCallFilters fmt_g_whole locus_LC_only [] (init_sample_info 3 [])
        [''s1'', ''s2'', ''s3''])
   = Inr [(''numcalls'', [Flt 1, Flt 1, Flt 1]), (''totaldp'', [NaN, NaN, NaN])]"
  by (simp add: call_eval numeral_3_eq_3)

text \<open>
  C3 (code at the failing input). A record that has neither \<open>DP\<close> nor \<open>LC\<close>, in
  a VCF whose header declares neither, with no call filter at all: the call does not
  complete, it raises the KeyError of the lookup of \<open>LC\<close>.
\<close>

theorem missing_depth_fields_raise:
  "ApplyCallFilters fmt_g_whole locus_no_depth []
     (init_sample_info 3 []) [''s1'', ''s2'', ''s3'']
   = Inl (KeyError ''LC'')"
  by (simp add: call_eval)

section \<open>Properties of one record through main\<close>

lemma GetCalledSamples_INFO [simp]:
  "GetCalledSamples (set_INFO k v r) = GetCalledSamples r"
  by (simp add: GetCalledSamples_def set_INFO_def)

lemma alt_alleles_set_INFO [simp]: "alt_alleles (set_INFO k v r) = alt_alleles r"
  by (simp add: set_INFO_def)

lemma INFO_set_INFO [simp]: "map_of (INFO (set_INFO k v r)) = (map_of (INFO r))(k \<mapsto> v)"
  by (simp add: set_INFO_def AList.update_conv')

lemma recalculate_INFO_no_calls:
  assumes "\<not> list_ex id (GetCalledSamples r)"
  shows "map_of (INFO (recalculate_INFO lib ul r)) ''HET'' = Some (InfoInt (-1))
       \<and> map_of (INFO (recalculate_INFO lib ul r)) ''HWEP'' = Some (InfoInt (-1))
       \<and> map_of (INFO (recalculate_INFO lib ul r)) ''AC'' =
           Some (if alt_alleles r = [] then InfoInt 0
                 else InfoStr (join '','' (replicate (length (alt_alleles r)) ''0'')))
       \<and> map_of (INFO (recalculate_INFO lib ul r)) ''REFAC'' = Some (InfoInt 0)"
proof -
  have "filter id (GetCalledSamples r) = []"
    using assms by (simp add: count_called_zero)
  then show ?thesis
    by (cases "full_alleles r") (simp_all add: recalculate_INFO_def Let_def)
qed

text \<open>
  C8. For every record that \<open>main\<close> emits and that has no called sample after
  ApplyCallFilters, the INFO fields are the fixed values: \<open>HET\<close> and \<open>HWEP\<close> are
  \<open>-1\<close>, \<open>AC\<close> is one \<open>0\<close> per alternate allele joined by commas (the integer 0 if
  there is none), and \<open>REFAC\<close> is 0; none of them depends on the metric library.
\<close>

theorem no_calls_sentinels:
  assumes "ApplyCallFilters fmt_g record0 call_filters sample_info samples
             = Inr (record, sample_info')"
    and "\<not> list_ex id (GetCalledSamples record)"
    and "process_record lib fmt_g use_length drop_filtered call_filters locus_filters samples
           (sample_info, loc_info) record0 = Inr (Emitted out, sample_info'', loc_info'')"
  shows "map_of (INFO out) ''HET'' = Some (InfoInt (-1))
       \<and> map_of (INFO out) ''HWEP'' = Some (InfoInt (-1))
       \<and> map_of (INFO out) ''AC'' =
           Some (if alt_alleles record = [] then InfoInt 0
                 else InfoStr (join '','' (replicate (length (alt_alleles record)) ''0'')))
       \<and> map_of (INFO out) ''REFAC'' = Some (InfoInt 0)"
proof -
  from assms(1,3) obtain record' li lf where
    a: "ApplyLocusFilters record locus_filters loc_info drop_filtered = Inr (record', li, lf)"
    and o: "out = recalculate_INFO lib use_length record'"
    by (auto simp: process_record_def split: sum.splits if_splits)
  from ApplyLocusFilters_frame [OF a] have fr: "record' = record\<lparr>FILTER := FILTER record'\<rparr>"
    by simp
  have c: "GetCalledSamples record' = GetCalledSamples record"
    by (subst fr) simp
  have al: "alt_alleles record' = alt_alleles record"
    by (subst fr) simp
  from recalculate_INFO_no_calls [of record' lib use_length] assms(2) c al o
  show ?thesis by simp
qed

lemmas locus_eval2 = ApplyLocusFilters_def no_calls_check_def pass_check_def locus_eval

theorem no_calls_sentinels_witness:
  "process_record no_metrics fmt_g_whole False False [min_depth_10] [] [''s1'', ''s2'', ''s3'']
     (init_sample_info 3 [''MinDepth''], init_loc_info []) locus_uncalled
   = Inr (Emitted
            (locus_uncalled
               \<lparr>format := [(''DP'', IntVals [-2147483648, -2147483648, -2147483648]),
                           (''FILTER'', StrVals [''NOCALL'', ''NOCALL'', ''NOCALL''])],
                FILTER := ''NO_CALLS_REMAINING'',
                INFO := [(''HRUN'', InfoInt 0), (''HET'', InfoInt (-1)),
                         (''HWEP'', InfoInt (-1)), (''AC'', InfoStr ''0''),
                         (''REFAC'', InfoInt 0)]\<rparr>),
          [(''numcalls'', [Flt 0, Flt 0, Flt 0]), (''totaldp'', [Flt 0, Flt 0, Flt 0]),
           (''MinDepth'', [Flt 0, Flt 0, Flt 0])],
          [(''totalcalls'', 0), (''PASS'', 0), (''NO_CALLS_REMAINING'', 1)])"
proof -
  let ?r1 = "locus_uncalled
            \<lparr>format := [(''DP'', IntVals [-2147483648, -2147483648, -2147483648]),
                        (''FILTER'', StrVals [''NOCALL'', ''NOCALL'', ''NOCALL''])]\<rparr>"
  let ?si = "[(''numcalls'', [Flt 0, Flt 0, Flt 0]), (''totaldp'', [Flt 0, Flt 0, Flt 0]),
           (''MinDepth'', [Flt 0, Flt 0, Flt 0])]"
  have a: "ApplyCallFilters fmt_g_whole locus_uncalled [min_depth_10]
             (init_sample_info 3 [''MinDepth'']) [''s1'', ''s2'', ''s3''] = Inr (?r1, ?si)"
    by (rule uncalled_eval)
  have b: "\<not> list_ex id (GetCalledSamples ?r1)"
    by (simp add: locus_eval)
  have l: "ApplyLocusFilters ?r1 [] (init_loc_info []) False
             = Inr (?r1\<lparr>FILTER := ''NO_CALLS_REMAINING''\<rparr>,
                    [(''totalcalls'', 0), (''PASS'', 0), (''NO_CALLS_REMAINING'', 1)], True)"
    by (simp add: locus_eval2)
  obtain out where
    p: "process_record no_metrics fmt_g_whole False False [min_depth_10] [] [''s1'', ''s2'', ''s3'']
          (init_sample_info 3 [''MinDepth''], init_loc_info []) locus_uncalled
        = Inr (Emitted out, ?si, [(''totalcalls'', 0), (''PASS'', 0), (''NO_CALLS_REMAINING'', 1)])"
    and o: "out = recalculate_INFO no_metrics False (?r1\<lparr>FILTER := ''NO_CALLS_REMAINING''\<rparr>)"
    using a l by (simp add: process_record_def)
  from no_calls_sentinels [OF a b p]
  have s: "map_of (INFO out) ''HET'' = Some (InfoInt (-1))" by simp
  have "out = locus_uncalled
               \<lparr>format := [(''DP'', IntVals [-2147483648, -2147483648, -2147483648]),
                           (''FILTER'', StrVals [''NOCALL'', ''NOCALL'', ''NOCALL''])],
                FILTER := ''NO_CALLS_REMAINING'',
                INFO := [(''HRUN'', InfoInt 0), (''HET'', InfoInt (-1)),
                         (''HWEP'', InfoInt (-1)), (''AC'', InfoStr ''0''),
                         (''REFAC'', InfoInt 0)]\<rparr>"
    unfolding o using s
    by (simp add: recalculate_INFO_def set_INFO_def no_metrics_def locus_eval Let_def)
  with p show ?thesis by simp
qed

end
